theory Spec2Isabelle
  imports Main "HOL-Library.Word"
begin

unbundle bit_operations_syntax

section \<open>Data model of package block\<close>

text \<open>
  The ledger engine of \<^verbatim>\<open>block/blockchain.go\<close>. Run-time panics of the Go code are
  values of type \<open>panic\<close>; a function that can panic returns \<open>panic + 'a\<close>.
\<close>

datatype panic =
    NilDereference
  | IndexOutOfRange
  | NegativeRepeatCount
  | SliceBoundsOutOfRange

subsection \<open>float32\<close>

text \<open>
  IEEE 754 binary32. Every finite binary32 value is an integer multiple of \<open>2 ^ -149\<close>
  (the smallest subnormal), so a finite value is stored as that integer: \<open>Val k\<close> stands
  for \<open>k * 2 ^ -149\<close>, and \<open>Val 0\<close> is \<open>+0\<close>. The value \<open>1.0\<close> is \<open>Val (2 ^ 149)\<close>.
\<close>

datatype float32 = NaN | PInf | NInf | NZero | Val int

text \<open>\<open>NZero\<close> is \<open>-0\<close>, \<open>PInf\<close> and \<open>NInf\<close> are the two infinities.\<close>

text \<open>Number of binary digits of a positive integer.\<close>

function bits :: "int \<Rightarrow> nat" where
  "bits n = (if n \<le> 0 then 0 else Suc (bits (n div 2)))"
  by pat_completeness auto
termination
  by (relation "measure nat") auto

declare bits.simps [simp del]

text \<open>
  Rounding of an exact result (in units of \<open>2 ^ -149\<close>) to binary32: 24 significant bits,
  round to nearest, ties to even, overflow to infinity from \<open>2 ^ 128\<close> (\<open>2 ^ 277\<close> units).
\<close>

definition f32_round :: "int \<Rightarrow> float32" where
  "f32_round k =
     (let a = \<bar>k\<bar>;
          sh = bits a - 24;
          q = a div 2 ^ sh;
          r = a mod 2 ^ sh;
          q' = (if 2 * r > 2 ^ sh \<or> (2 * r = 2 ^ sh \<and> odd q) then q + 1 else q);
          m = q' * 2 ^ sh
      in if m \<ge> 2 ^ 277 then (if k < 0 then NInf else PInf)
         else Val (if k < 0 then - m else m))"

text \<open>A finite value is a \<open>float32\<close> when rounding leaves it as it is.\<close>

definition f32_valid :: "float32 \<Rightarrow> bool" where
  "f32_valid x = (case x of Val k \<Rightarrow> f32_round k = Val k | _ \<Rightarrow> True)"

text \<open>
  Addition and subtraction as Go computes \<^verbatim>\<open>x + y\<close> and \<^verbatim>\<open>x - y\<close> on \<^verbatim>\<open>float32\<close>: the
  exact result, rounded; \<open>x - y\<close> is \<open>x + (- y)\<close>. An exact result of zero is \<open>+0\<close>,
  except for \<open>-0 + -0\<close>.
\<close>

fun fadd :: "float32 \<Rightarrow> float32 \<Rightarrow> float32" where
  "fadd NaN y = NaN"
| "fadd x NaN = NaN"
| "fadd PInf NInf = NaN"
| "fadd NInf PInf = NaN"
| "fadd PInf y = PInf"
| "fadd x PInf = PInf"
| "fadd NInf y = NInf"
| "fadd x NInf = NInf"
| "fadd NZero NZero = NZero"
| "fadd NZero (Val b) = Val b"
| "fadd (Val a) NZero = Val a"
| "fadd (Val a) (Val b) = f32_round (a + b)"

fun fneg :: "float32 \<Rightarrow> float32" where
  "fneg NaN = NaN"
| "fneg PInf = NInf"
| "fneg NInf = PInf"
| "fneg NZero = Val 0"
| "fneg (Val k) = (if k = 0 then NZero else Val (- k))"

definition fsub :: "float32 \<Rightarrow> float32 \<Rightarrow> float32" where
  "fsub x y = fadd x (fneg y)"

subsection \<open>Slices, pointers and the heap of transactions\<close>

text \<open>
  A Go slice is \<open>nil\<close> or holds elements; the two differ in their JSON encoding
  (\<^verbatim>\<open>null\<close> against \<^verbatim>\<open>[]\<close>). The backing array of a slice is never shared between
  two live slices that are written: \<^verbatim>\<open>CreateBlock\<close> hands the pool's slice to the block
  and gives the pool a new empty slice, so slices are lists here.
\<close>

datatype 'a slice = NilSlice | Slice "'a list"

fun elems :: "'a slice \<Rightarrow> 'a list" where
  "elems NilSlice = []"
| "elems (Slice xs) = xs"

definition append_slice :: "'a slice \<Rightarrow> 'a \<Rightarrow> 'a slice" where
  "append_slice s x = Slice (elems s @ [x])"

type_synonym addr = nat

record Transaction =
  senderBlockchainAddress :: string
  recipientBlockchainAddress :: string
  value_tx :: float32

text \<open>
  A \<^verbatim>\<open>*Transaction\<close> is an address into the heap. \<open>objs\<close> is the memory, \<open>next_free\<close>
  the first address not yet allocated.
\<close>

record heap =
  objs :: "addr \<Rightarrow> Transaction"
  next_free :: addr

record Block =
  timestamp :: "64 word"
  nonce :: "64 word"
  previousHash :: "256 word"
  transactions :: "addr slice"

record Blockchain =
  transactionPool :: "addr slice"
  chain_bc :: "Block list"
  blockchainAddress :: string
  port :: "16 word"

text \<open>
  The chain is a slice of \<^verbatim>\<open>*Block\<close>. No field of a block is written after \<^verbatim>\<open>NewBlock\<close>
  has built it, so the chain holds the blocks themselves. \<^verbatim>\<open>timestamp\<close> is an
  \<^verbatim>\<open>int64\<close>, \<^verbatim>\<open>nonce\<close> an \<^verbatim>\<open>int\<close>, \<^verbatim>\<open>previousHash\<close> a \<^verbatim>\<open>[32]byte\<close>.
\<close>

text \<open>
  \<^verbatim>\<open>utils.Signature\<close> is declared outside the ledger package; the ledger reads its
  fields \<^verbatim>\<open>R\<close> and \<^verbatim>\<open>S\<close>, both passed on to \<^verbatim>\<open>ecdsa.Verify\<close>.
\<close>

record 'bi Signature =
  sigR :: 'bi
  sigS :: 'bi

subsection \<open>The standard library\<close>

text \<open>
  The value handed to \<^verbatim>\<open>json.Marshal\<close>, as a tree. The encoder itself, SHA-256 and ECDSA
  verification belong to the Go standard library and are parameters of the model:
  \<open>json_Marshal\<close> returns \<open>None\<close> where the encoder reports an error (for example on a
  \<^verbatim>\<open>NaN\<close> value), \<open>ecdsa_Verify\<close> may panic. A \<^verbatim>\<open>[32]byte\<close> digest is a \<open>256 word\<close>,
  byte 0 being the most significant.
\<close>

datatype json =
    JNull
  | JInt int
  | JFloat float32
  | JStr string
  | JArr "json list"
  | JObj "(string \<times> json) list"

record ('pk, 'bi) lib =
  json_Marshal :: "json \<Rightarrow> 8 word list option"
  sha256_Sum256 :: "8 word list \<Rightarrow> 256 word"
  ecdsa_Verify :: "'pk option \<Rightarrow> 256 word \<Rightarrow> 'bi \<Rightarrow> 'bi \<Rightarrow> panic + bool"

definition hexdigit :: "nat \<Rightarrow> char" where
  "hexdigit n = ''0123456789abcdef'' ! (n mod 16)"

text \<open>\<^verbatim>\<open>fmt.Sprintf("%x", h)\<close> for a \<^verbatim>\<open>[32]byte\<close>: 64 lower-case hexadecimal digits.\<close>

definition hex256 :: "256 word \<Rightarrow> string" where
  "hex256 w = map (\<lambda>i. hexdigit (unat (take_bit 4 (drop_bit (4 * (63 - i)) w)))) [0..<64]"

section \<open>Operations\<close>

definition MiningDifficulty :: int where
  "MiningDifficulty = 3"

definition MiningSender :: string where
  "MiningSender = ''THE BLOCKCHAIN''"

text \<open>The \<open>float32\<close> value \<open>1.0\<close>, in units of \<open>2 ^ -149\<close>.\<close>

definition one_units :: int where
  "one_units = 2 ^ 149"

definition MiningReward :: float32 where
  "MiningReward = Val one_units"

definition NewTransaction :: "heap \<Rightarrow> string \<Rightarrow> string \<Rightarrow> float32 \<Rightarrow> addr \<times> heap" where
  "NewTransaction h sender recipient v =
     (next_free h,
      h\<lparr>objs := (objs h)(next_free h :=
             \<lparr>senderBlockchainAddress = sender,
              recipientBlockchainAddress = recipient,
              value_tx = v\<rparr>),
        next_free := Suc (next_free h)\<rparr>)"

definition Transaction_MarshalJSON :: "Transaction \<Rightarrow> json" where
  "Transaction_MarshalJSON t =
     JObj [(''sender_blockchain_address'', JStr (senderBlockchainAddress t)),
           (''recipient_blockchain_address'', JStr (recipientBlockchainAddress t)),
           (''value'', JFloat (value_tx t))]"

definition transactions_json :: "heap \<Rightarrow> addr slice \<Rightarrow> json" where
  "transactions_json h ts =
     (case ts of
        NilSlice \<Rightarrow> JNull
      | Slice ps \<Rightarrow> JArr (map (\<lambda>p. Transaction_MarshalJSON (objs h p)) ps))"

definition Block_MarshalJSON :: "heap \<Rightarrow> Block \<Rightarrow> json" where
  "Block_MarshalJSON h b =
     JObj [(''timestamp'', JInt (sint (timestamp b))),
           (''nonce'', JInt (sint (nonce b))),
           (''previous_hash'', JStr (hex256 (previousHash b))),
           (''transaction'', transactions_json h (transactions b))]"

text \<open>\<^verbatim>\<open>m, _ := json.Marshal(v)\<close>: the error is dropped, \<open>m\<close> is then empty.\<close>

definition marshal_ignoring_error :: "('pk, 'bi) lib \<Rightarrow> json \<Rightarrow> 8 word list" where
  "marshal_ignoring_error L j = (case json_Marshal L j of None \<Rightarrow> [] | Some m \<Rightarrow> m)"

definition Hash :: "('pk, 'bi) lib \<Rightarrow> heap \<Rightarrow> Block \<Rightarrow> 256 word" where
  "Hash L h b = sha256_Sum256 L (marshal_ignoring_error L (Block_MarshalJSON h b))"

text \<open>\<^verbatim>\<open>NewBlock\<close> reads the clock; the instant read is the argument \<open>now\<close>.\<close>

definition NewBlock :: "64 word \<Rightarrow> 64 word \<Rightarrow> 256 word \<Rightarrow> addr slice \<Rightarrow> Block" where
  "NewBlock now n prev ts =
     \<lparr>timestamp = now, nonce = n, previousHash = prev, transactions = ts\<rparr>"

definition CreateBlock ::
  "64 word \<Rightarrow> Blockchain \<Rightarrow> 64 word \<Rightarrow> 256 word \<Rightarrow> Block \<times> Blockchain" where
  "CreateBlock now bc n prev =
     (let b = NewBlock now n prev (transactionPool bc) in
      (b, bc\<lparr>chain_bc := chain_bc bc @ [b], transactionPool := Slice []\<rparr>))"

text \<open>The zero value \<^verbatim>\<open>&Block{}\<close> and \<^verbatim>\<open>new(Blockchain)\<close>.\<close>

definition zero_Block :: Block where
  "zero_Block = \<lparr>timestamp = 0, nonce = 0, previousHash = 0, transactions = NilSlice\<rparr>"

definition zero_Blockchain :: Blockchain where
  "zero_Blockchain =
     \<lparr>transactionPool = NilSlice, chain_bc = [], blockchainAddress = [], port = 0\<rparr>"

definition NewBlockchain ::
  "('pk, 'bi) lib \<Rightarrow> 64 word \<Rightarrow> heap \<Rightarrow> string \<Rightarrow> 16 word \<Rightarrow> Blockchain" where
  "NewBlockchain L now h address p =
     (let bc = zero_Blockchain\<lparr>blockchainAddress := address\<rparr>;
          (b, bc1) = CreateBlock now bc 0 (Hash L h zero_Block)
      in bc1\<lparr>port := p\<rparr>)"

definition LastBlock :: "Blockchain \<Rightarrow> panic + Block" where
  "LastBlock bc =
     (if chain_bc bc = [] then Inl IndexOutOfRange
      else Inr (chain_bc bc ! (length (chain_bc bc) - 1)))"

definition VerifyTransactionSignature ::
  "('pk, 'bi) lib \<Rightarrow> heap \<Rightarrow> 'pk option \<Rightarrow> 'bi Signature option \<Rightarrow> addr \<Rightarrow> panic + bool" where
  "VerifyTransactionSignature L h senderPublicKey s t =
     (let m = marshal_ignoring_error L (Transaction_MarshalJSON (objs h t));
          d = sha256_Sum256 L m
      in case s of
           None \<Rightarrow> Inl NilDereference
         | Some sg \<Rightarrow> ecdsa_Verify L senderPublicKey d (sigR sg) (sigS sg))"

definition AddTransaction ::
  "('pk, 'bi) lib \<Rightarrow> heap \<Rightarrow> Blockchain \<Rightarrow> string \<Rightarrow> string \<Rightarrow> float32 \<Rightarrow>
   'pk option \<Rightarrow> 'bi Signature option \<Rightarrow> panic + (bool \<times> heap \<times> Blockchain)" where
  "AddTransaction L h bc sender recipient v senderPublicKey s =
     (let (t, h1) = NewTransaction h sender recipient v in
      if sender = MiningSender
      then Inr (True, h1, bc\<lparr>transactionPool := append_slice (transactionPool bc) t\<rparr>)
      else case VerifyTransactionSignature L h1 senderPublicKey s t of
             Inl e \<Rightarrow> Inl e
           | Inr ok \<Rightarrow>
               if ok
               then Inr (True, h1, bc\<lparr>transactionPool := append_slice (transactionPool bc) t\<rparr>)
               else Inr (False, h1, bc))"

fun copy_loop :: "heap \<Rightarrow> addr list \<Rightarrow> addr list \<Rightarrow> addr list \<times> heap" where
  "copy_loop h acc [] = (acc, h)"
| "copy_loop h acc (p # ps) =
     (let t = objs h p;
          (q, h1) = NewTransaction h (senderBlockchainAddress t)
                      (recipientBlockchainAddress t) (value_tx t)
      in copy_loop h1 (acc @ [q]) ps)"

definition CopyTransactionPool :: "heap \<Rightarrow> Blockchain \<Rightarrow> addr slice \<times> heap" where
  "CopyTransactionPool h bc =
     (let (qs, h1) = copy_loop h [] (elems (transactionPool bc)) in (Slice qs, h1))"

definition ValidProof ::
  "('pk, 'bi) lib \<Rightarrow> heap \<Rightarrow> 64 word \<Rightarrow> 256 word \<Rightarrow> addr slice \<Rightarrow> int \<Rightarrow> panic + bool" where
  "ValidProof L h n prev ts difficulty =
     (if difficulty < 0 then Inl NegativeRepeatCount
      else
        let zeros = replicate (nat difficulty) (CHR ''0'');
            guessBlock = \<lparr>timestamp = 0, nonce = n, previousHash = prev, transactions = ts\<rparr>;
            guessHashStr = hex256 (Hash L h guessBlock)
        in if nat difficulty > length guessHashStr then Inl SliceBoundsOutOfRange
           else Inr (take (nat difficulty) guessHashStr = zeros))"

text \<open>
  The search loop of \<^verbatim>\<open>ProofOfWork\<close>. \<^verbatim>\<open>nonce\<close> is a Go \<^verbatim>\<open>int\<close>, 64 bits wide on the
  64-bit platforms: \<^verbatim>\<open>nonce++\<close> wraps around from the largest value to the smallest.
  The loop need not end; not returning is \<open>None\<close>.
\<close>

partial_function (option) ProofOfWork_loop ::
  "('pk, 'bi) lib \<Rightarrow> heap \<Rightarrow> 256 word \<Rightarrow> addr slice \<Rightarrow> 64 word \<Rightarrow> (panic + 64 word) option" where
  "ProofOfWork_loop L h prev ts n =
     (case ValidProof L h n prev ts MiningDifficulty of
        Inl e \<Rightarrow> Some (Inl e)
      | Inr ok \<Rightarrow> if ok then Some (Inr n) else ProofOfWork_loop L h prev ts (n + 1))"

definition ProofOfWork ::
  "('pk, 'bi) lib \<Rightarrow> heap \<Rightarrow> Blockchain \<Rightarrow> (panic + (64 word \<times> heap)) option" where
  "ProofOfWork L h bc =
     (let (ts, h1) = CopyTransactionPool h bc in
      case LastBlock bc of
        Inl e \<Rightarrow> Some (Inl e)
      | Inr lb \<Rightarrow>
          (case ProofOfWork_loop L h1 (Hash L h1 lb) ts 0 of
             None \<Rightarrow> None
           | Some (Inl e) \<Rightarrow> Some (Inl e)
           | Some (Inr n) \<Rightarrow> Some (Inr (n, h1))))"

definition Mining ::
  "('pk, 'bi) lib \<Rightarrow> 64 word \<Rightarrow> heap \<Rightarrow> Blockchain \<Rightarrow>
   (panic + (bool \<times> heap \<times> Blockchain)) option" where
  "Mining L now h bc =
     (case AddTransaction L h bc MiningSender (blockchainAddress bc) MiningReward None None of
        Inl e \<Rightarrow> Some (Inl e)
      | Inr (added, h1, bc1) \<Rightarrow>
          (case ProofOfWork L h1 bc1 of
             None \<Rightarrow> None
           | Some (Inl e) \<Rightarrow> Some (Inl e)
           | Some (Inr (n, h2)) \<Rightarrow>
               (case LastBlock bc1 of
                  Inl e \<Rightarrow> Some (Inl e)
                | Inr lb \<Rightarrow>
                    (let (b, bc2) = CreateBlock now bc1 n (Hash L h2 lb)
                     in Some (Inr (True, h2, bc2))))))"

text \<open>The running total of \<^verbatim>\<open>CalculateTotalAmount\<close> after one transaction.\<close>

definition total_step :: "string \<Rightarrow> float32 \<Rightarrow> Transaction \<Rightarrow> float32" where
  "total_step a totalAmount t =
     (let v = value_tx t;
          total1 = (if a = recipientBlockchainAddress t then fadd totalAmount v
                    else totalAmount)
      in if a = senderBlockchainAddress t then fsub total1 v else total1)"

definition CalculateTotalAmount :: "heap \<Rightarrow> Blockchain \<Rightarrow> string \<Rightarrow> float32" where
  "CalculateTotalAmount h bc a =
     foldl (\<lambda>total b. foldl (\<lambda>total p. total_step a total (objs h p)) total
                         (elems (transactions b)))
       (Val 0) (chain_bc bc)"

section \<open>Vocabulary of the properties\<close>

subsection \<open>Heaps and well-formed ledgers\<close>

text \<open>
  \<open>heap_extends h h'\<close>: \<open>h'\<close> arises from \<open>h\<close> by allocation only; every object
  allocated in \<open>h\<close> is unchanged in \<open>h'\<close>.
\<close>

definition heap_extends :: "heap \<Rightarrow> heap \<Rightarrow> bool" where
  "heap_extends h h' =
     (next_free h \<le> next_free h' \<and> (\<forall>p < next_free h. objs h' p = objs h p))"

definition allocated :: "heap \<Rightarrow> addr list \<Rightarrow> bool" where
  "allocated h ps = (\<forall>p \<in> set ps. p < next_free h)"

text \<open>Every pointer held by the ledger points to an allocated transaction.\<close>

definition wf_state :: "heap \<Rightarrow> Blockchain \<Rightarrow> bool" where
  "wf_state h bc =
     (allocated h (elems (transactionPool bc)) \<and>
      (\<forall>b \<in> set (chain_bc bc). allocated h (elems (transactions b))))"

text \<open>What the pool and the blocks hold, read through the pointers.\<close>

definition pool_contents :: "heap \<Rightarrow> Blockchain \<Rightarrow> Transaction list" where
  "pool_contents h bc = map (objs h) (elems (transactionPool bc))"

definition block_contents :: "heap \<Rightarrow> Block \<Rightarrow> Transaction list" where
  "block_contents h b = map (objs h) (elems (transactions b))"

definition chain_transactions :: "heap \<Rightarrow> Blockchain \<Rightarrow> Transaction list" where
  "chain_transactions h bc = concat (map (block_contents h) (chain_bc bc))"

subsection \<open>Reachable ledgers\<close>

text \<open>
  The ledgers reachable from \<^verbatim>\<open>NewBlockchain\<close> by calls of \<^verbatim>\<open>AddTransaction\<close> and
  \<^verbatim>\<open>Mining\<close> that return.
\<close>

inductive reachable :: "('pk, 'bi) lib \<Rightarrow> heap \<Rightarrow> Blockchain \<Rightarrow> bool"
  for L :: "('pk, 'bi) lib" where
  reach_new: "reachable L h (NewBlockchain L now h address p)"
| reach_add:
    "reachable L h bc \<Longrightarrow>
     AddTransaction L h bc sender recipient v pk s = Inr (ok, h', bc') \<Longrightarrow>
     reachable L h' bc'"
| reach_mine:
    "reachable L h bc \<Longrightarrow>
     Mining L now h bc = Some (Inr (ok, h', bc')) \<Longrightarrow>
     reachable L h' bc'"

subsection \<open>Linked and sealed chains\<close>

text \<open>
  Every block but the first carries the hash of its predecessor, and every block but the
  first carries a nonce that \<^verbatim>\<open>ValidProof\<close> accepts at the mining difficulty.
\<close>

definition linked :: "('pk, 'bi) lib \<Rightarrow> heap \<Rightarrow> Block list \<Rightarrow> bool" where
  "linked L h bs =
     (\<forall>i. 1 \<le> i \<and> i < length bs \<longrightarrow> previousHash (bs ! i) = Hash L h (bs ! (i - 1)))"

definition sealed :: "('pk, 'bi) lib \<Rightarrow> heap \<Rightarrow> Block list \<Rightarrow> bool" where
  "sealed L h bs =
     (\<forall>i. 1 \<le> i \<and> i < length bs \<longrightarrow>
          ValidProof L h (nonce (bs ! i)) (previousHash (bs ! i)) (transactions (bs ! i))
            MiningDifficulty = Inr True)"

subsection \<open>Proof of work\<close>

text \<open>
  The search of \<^verbatim>\<open>ProofOfWork\<close> has a solution: some non-negative nonce is valid for the
  hash of the last block and the copy of the pool that \<^verbatim>\<open>ProofOfWork\<close> builds.
\<close>

definition solvable :: "('pk, 'bi) lib \<Rightarrow> heap \<Rightarrow> Blockchain \<Rightarrow> bool" where
  "solvable L h bc =
     (case LastBlock bc of
        Inl e \<Rightarrow> False
      | Inr lb \<Rightarrow>
          (let (ts, h1) = CopyTransactionPool h bc in
           \<exists>m. 0 \<le> sint m \<and>
               ValidProof L h1 m (Hash L h1 lb) ts MiningDifficulty = Inr True))"

subsection \<open>Exact balances\<close>

text \<open>
  The mathematical value of a finite \<open>float32\<close>, in units of \<open>2 ^ -149\<close>, and the exact
  sums of the values received and sent by an address over the chain.
\<close>

fun units :: "float32 \<Rightarrow> int" where
  "units (Val k) = k"
| "units x = 0"

text \<open>The finite values: every \<open>Val k\<close> and \<open>-0\<close>; not the infinities, not \<open>NaN\<close>.\<close>

fun is_finite :: "float32 \<Rightarrow> bool" where
  "is_finite (Val k) = True"
| "is_finite NZero = True"
| "is_finite x = False"

definition received_units :: "heap \<Rightarrow> Blockchain \<Rightarrow> string \<Rightarrow> int" where
  "received_units h bc a =
     sum_list (map (\<lambda>t. units (value_tx t))
       (filter (\<lambda>t. recipientBlockchainAddress t = a) (chain_transactions h bc)))"

definition sent_units :: "heap \<Rightarrow> Blockchain \<Rightarrow> string \<Rightarrow> int" where
  "sent_units h bc a =
     sum_list (map (\<lambda>t. units (value_tx t))
       (filter (\<lambda>t. senderBlockchainAddress t = a) (chain_transactions h bc)))"

text \<open>
  The signed amounts that the scan of \<^verbatim>\<open>CalculateTotalAmount\<close> applies for address \<open>a\<close>,
  in the order of the scan: the credit of a transaction before its debit.
\<close>

definition tx_deltas :: "string \<Rightarrow> Transaction \<Rightarrow> int list" where
  "tx_deltas a t =
     (if a = recipientBlockchainAddress t then [units (value_tx t)] else []) @
     (if a = senderBlockchainAddress t then [- units (value_tx t)] else [])"

definition deltas :: "string \<Rightarrow> Transaction list \<Rightarrow> int list" where
  "deltas a ts = concat (map (tx_deltas a) ts)"

text \<open>No step of the running total is rounded: each partial sum is a \<open>float32\<close>.\<close>

fun exact_run :: "int \<Rightarrow> int list \<Rightarrow> bool" where
  "exact_run acc [] = True"
| "exact_run acc (d # ds) = (f32_round (acc + d) = Val (acc + d) \<and> exact_run (acc + d) ds)"

definition finite_values :: "string \<Rightarrow> Transaction list \<Rightarrow> bool" where
  "finite_values a ts =
     list_all (\<lambda>t. a = recipientBlockchainAddress t \<or> a = senderBlockchainAddress t
                  \<longrightarrow> is_finite (value_tx t)) ts"

text \<open>
  The same difference with every sum taken in \<open>float32\<close>: the sum of the values
  received and the sum of the values sent, each accumulated from \<open>+0\<close> in chain order.
\<close>

definition received_float :: "heap \<Rightarrow> Blockchain \<Rightarrow> string \<Rightarrow> float32" where
  "received_float h bc a =
     foldl fadd (Val 0) (map value_tx
       (filter (\<lambda>t. recipientBlockchainAddress t = a) (chain_transactions h bc)))"

definition sent_float :: "heap \<Rightarrow> Blockchain \<Rightarrow> string \<Rightarrow> float32" where
  "sent_float h bc a =
     foldl fadd (Val 0) (map value_tx
       (filter (\<lambda>t. senderBlockchainAddress t = a) (chain_transactions h bc)))"

section \<open>A small library instance and concrete ledgers\<close>

text \<open>
  An instance of the library parameters on which the model can be evaluated: the encoder
  keeps the nonce and the number of transactions of a block, the digest is zero for one
  encoding out of four, and a signature verifies when both its halves equal the key.
\<close>

definition demo_Marshal :: "json \<Rightarrow> 8 word list option" where
  "demo_Marshal j =
     (case j of
        JObj fs \<Rightarrow>
          (case map_of fs ''nonce'' of
             Some (JInt n) \<Rightarrow>
               Some [of_nat ((nat n +
                 (case map_of fs ''transaction'' of Some (JArr xs) \<Rightarrow> length xs | _ \<Rightarrow> 0))
                 mod 4)]
           | _ \<Rightarrow> Some [])
      | _ \<Rightarrow> None)"

definition top_bit :: "256 word" where
  "top_bit = 2 ^ 255"

definition demo_Sum256 :: "8 word list \<Rightarrow> 256 word" where
  "demo_Sum256 m = (if m = [3] then 0 else top_bit)"

definition demo_Verify :: "nat option \<Rightarrow> 256 word \<Rightarrow> nat \<Rightarrow> nat \<Rightarrow> panic + bool" where
  "demo_Verify pk d r s =
     (case pk of None \<Rightarrow> Inl NilDereference | Some k \<Rightarrow> Inr (r = k \<and> s = k))"

definition demo_lib :: "(nat, nat) lib" where
  "demo_lib =
     \<lparr>json_Marshal = demo_Marshal, sha256_Sum256 = demo_Sum256, ecdsa_Verify = demo_Verify\<rparr>"

definition tx :: "string \<Rightarrow> string \<Rightarrow> float32 \<Rightarrow> Transaction" where
  "tx s r v =
     \<lparr>senderBlockchainAddress = s, recipientBlockchainAddress = r, value_tx = v\<rparr>"

definition heap0 :: heap where
  "heap0 = \<lparr>objs = (\<lambda>p. tx [] [] (Val 0)), next_free = 2\<rparr>"

text \<open>
  A new ledger of address \<open>A\<close>, the ledger once \<^verbatim>\<open>Mining\<close> has added the reward
  transaction, and the ledger after that call of \<^verbatim>\<open>Mining\<close>.
\<close>

definition demo_genesis :: Blockchain where
  "demo_genesis = NewBlockchain demo_lib 1 heap0 ''A'' 5000"

definition heap_r :: heap where
  "heap_r = \<lparr>objs = (objs heap0)(2 := tx MiningSender ''A'' MiningReward), next_free = 3\<rparr>"

definition demo_rewarded :: Blockchain where
  "demo_rewarded = demo_genesis\<lparr>transactionPool := Slice [2]\<rparr>"

definition heap1 :: heap where
  "heap1 =
     \<lparr>objs = (objs heap0)
        (2 := tx MiningSender ''A'' MiningReward, 3 := tx MiningSender ''A'' MiningReward),
      next_free = 4\<rparr>"

definition demo_mined :: Blockchain where
  "demo_mined =
     demo_genesis
       \<lparr>chain_bc := chain_bc demo_genesis @
          [\<lparr>timestamp = 2, nonce = 2, previousHash = top_bit, transactions = Slice [2]\<rparr>],
        transactionPool := Slice []\<rparr>"

text \<open>
  A second history of the new ledger: the address \<open>A\<close> is credited \<open>16777216.0\<close> and
  \<open>1.0\<close> by the mining sender, sends \<open>16777216.0\<close> to \<open>B\<close> with a signature that
  verifies, and \<^verbatim>\<open>Mining\<close> is called. \<open>big_units\<close> is \<open>16777216.0 = 2 ^ 24\<close> in units of
  \<open>2 ^ -149\<close>.
\<close>

definition big_units :: int where
  "big_units = 2 ^ 24 * 2 ^ 149"

definition heap_c :: heap where
  "heap_c =
     \<lparr>objs = (objs heap0)
        (2 := tx MiningSender ''A'' (Val big_units),
         3 := tx MiningSender ''A'' (Val one_units),
         4 := tx ''A'' ''B'' (Val big_units)),
      next_free = 5\<rparr>"

definition demo_pending :: Blockchain where
  "demo_pending = demo_genesis\<lparr>transactionPool := Slice [2, 3, 4]\<rparr>"

definition heap_d :: heap where
  "heap_d = heap_c\<lparr>objs := (objs heap_c)(5 := tx MiningSender ''A'' MiningReward), next_free := 6\<rparr>"

definition demo_pending_rewarded :: Blockchain where
  "demo_pending_rewarded = demo_genesis\<lparr>transactionPool := Slice [2, 3, 4, 5]\<rparr>"

definition heap2 :: heap where
  "heap2 =
     \<lparr>objs = (objs heap_d)
        (6 := tx MiningSender ''A'' (Val big_units),
         7 := tx MiningSender ''A'' (Val one_units),
         8 := tx ''A'' ''B'' (Val big_units),
         9 := tx MiningSender ''A'' MiningReward),
      next_free = 10\<rparr>"

definition demo_rounded :: Blockchain where
  "demo_rounded =
     demo_genesis
       \<lparr>chain_bc := chain_bc demo_genesis @
          [\<lparr>timestamp = 2, nonce = 3, previousHash = top_bit,
            transactions = Slice [2, 3, 4, 5]\<rparr>],
        transactionPool := Slice []\<rparr>"

text \<open>
  A third history, continuing the ledger \<open>demo_mined\<close>, in which \<open>A\<close> holds the reward
  \<open>1.0\<close>: the address \<open>A\<close> sends the value \<open>v\<close> to \<open>B\<close> with a signature that verifies,
  and \<^verbatim>\<open>Mining\<close> is called again. The chain then holds, in order, a reward to \<open>A\<close>, the
  transfer of \<open>v\<close> from \<open>A\<close> to \<open>B\<close> and a second reward to \<open>A\<close>. \<open>half_units\<close> is
  \<open>0.5\<close>; \<open>f04_units\<close> and \<open>f16_units\<close> are the \<open>float32\<close> nearest to \<open>0.4\<close> and to
  \<open>1.6\<close>, that is \<open>13421773 * 2 ^ -25\<close> and \<open>13421773 * 2 ^ -23\<close>.
\<close>

definition half_units :: int where
  "half_units = 2 ^ 148"

definition f04_units :: int where
  "f04_units = 13421773 * 2 ^ 124"

definition f16_units :: int where
  "f16_units = 13421773 * 2 ^ 126"

definition heap_s :: "float32 \<Rightarrow> heap" where
  "heap_s v = \<lparr>objs = (objs heap1)(4 := tx ''A'' ''B'' v), next_free = 5\<rparr>"

definition demo_sending :: Blockchain where
  "demo_sending = demo_mined\<lparr>transactionPool := Slice [4]\<rparr>"

definition heap_t :: "float32 \<Rightarrow> heap" where
  "heap_t v =
     \<lparr>objs = (objs heap1)
        (4 := tx ''A'' ''B'' v, 5 := tx MiningSender ''A'' MiningReward), next_free = 6\<rparr>"

definition demo_sending_rewarded :: Blockchain where
  "demo_sending_rewarded = demo_mined\<lparr>transactionPool := Slice [4, 5]\<rparr>"

definition heap3 :: "float32 \<Rightarrow> heap" where
  "heap3 v =
     \<lparr>objs = (objs heap1)
        (4 := tx ''A'' ''B'' v, 5 := tx MiningSender ''A'' MiningReward,
         6 := tx ''A'' ''B'' v, 7 := tx MiningSender ''A'' MiningReward),
      next_free = 8\<rparr>"

definition demo_sent :: Blockchain where
  "demo_sent =
     demo_mined
       \<lparr>chain_bc := chain_bc demo_mined @
          [\<lparr>timestamp = 3, nonce = 1, previousHash = 0, transactions = Slice [4, 5]\<rparr>],
        transactionPool := Slice []\<rparr>"

section \<open>Heap extension and frame properties\<close>

lemma heap_extends_refl: "heap_extends h h"
  by (simp add: heap_extends_def)

lemma heap_extends_trans: "heap_extends h1 h2 \<Longrightarrow> heap_extends h2 h3 \<Longrightarrow> heap_extends h1 h3"
  by (auto simp add: heap_extends_def)

lemma NewTransaction_extends:
  "NewTransaction h s r v = (t, h1) \<Longrightarrow> heap_extends h h1"
  by (auto simp add: NewTransaction_def heap_extends_def)

lemma NewTransaction_result:
  assumes "NewTransaction h s r v = (t, h1)"
  shows "t = next_free h" and "next_free h1 = Suc (next_free h)" and "objs h1 t = tx s r v"
  using assms by (auto simp add: NewTransaction_def tx_def)

lemma allocated_extends: "heap_extends h h' \<Longrightarrow> allocated h ps \<Longrightarrow> allocated h' ps"
  by (auto simp add: heap_extends_def allocated_def)

lemma map_objs_extends:
  "heap_extends h h' \<Longrightarrow> allocated h ps \<Longrightarrow> map (objs h') ps = map (objs h) ps"
  by (auto simp add: heap_extends_def allocated_def)

lemma transactions_json_extends:
  "heap_extends h h' \<Longrightarrow> allocated h (elems ts) \<Longrightarrow>
     transactions_json h' ts = transactions_json h ts"
  by (cases ts) (auto simp add: transactions_json_def heap_extends_def allocated_def)

lemma Hash_extends:
  "heap_extends h h' \<Longrightarrow> allocated h (elems (transactions b)) \<Longrightarrow> Hash L h' b = Hash L h b"
  by (simp add: Hash_def Block_MarshalJSON_def transactions_json_extends)

lemma ValidProof_extends:
  "heap_extends h h' \<Longrightarrow> allocated h (elems ts) \<Longrightarrow>
     ValidProof L h' n prev ts d = ValidProof L h n prev ts d"
  by (simp add: ValidProof_def Hash_extends)

lemma block_contents_extends:
  "heap_extends h h' \<Longrightarrow> allocated h (elems (transactions b)) \<Longrightarrow>
     block_contents h' b = block_contents h b"
  by (simp add: block_contents_def map_objs_extends)

lemma chain_transactions_extends:
  assumes "heap_extends h h'" and "wf_state h bc"
  shows "chain_transactions h' bc = chain_transactions h bc"
proof -
  have "map (block_contents h') (chain_bc bc) = map (block_contents h) (chain_bc bc)"
    using assms by (auto simp add: wf_state_def block_contents_extends)
  then show ?thesis unfolding chain_transactions_def by (rule arg_cong)
qed

lemma pool_contents_extends:
  "heap_extends h h' \<Longrightarrow> wf_state h bc \<Longrightarrow> pool_contents h' bc = pool_contents h bc"
  by (simp add: pool_contents_def wf_state_def map_objs_extends)

lemma foldl_concat_blocks:
  "foldl (\<lambda>total b. foldl f total (g b)) z bs = foldl f z (concat (map g bs))"
  by (induction bs arbitrary: z) simp_all

lemma CalculateTotalAmount_scan:
  "CalculateTotalAmount h bc a = foldl (total_step a) (Val 0) (chain_transactions h bc)"
proof -
  have "\<And>total b. foldl (\<lambda>total p. total_step a total (objs h p)) total (elems (transactions b))
          = foldl (total_step a) total (block_contents h b)"
    by (simp add: block_contents_def foldl_map)
  then show ?thesis
    by (simp add: CalculateTotalAmount_def chain_transactions_def foldl_concat_blocks)
qed

lemma AddTransaction_cases:
  assumes "NewTransaction h sender recipient v = (t, h1)"
  shows "AddTransaction L h bc sender recipient v pk s =
     (if sender = MiningSender
      then Inr (True, h1, bc\<lparr>transactionPool := append_slice (transactionPool bc) t\<rparr>)
      else case VerifyTransactionSignature L h1 pk s t of
             Inl e \<Rightarrow> Inl e
           | Inr ok \<Rightarrow>
               if ok
               then Inr (True, h1, bc\<lparr>transactionPool := append_slice (transactionPool bc) t\<rparr>)
               else Inr (False, h1, bc))"
  using assms by (simp add: AddTransaction_def)

lemma VerifyTransactionSignature_new:
  assumes "NewTransaction h sender recipient v = (t, h1)"
  shows "VerifyTransactionSignature L h1 pk s t =
     (case s of
        None \<Rightarrow> Inl NilDereference
      | Some sg \<Rightarrow>
          ecdsa_Verify L pk
            (sha256_Sum256 L (marshal_ignoring_error L
               (Transaction_MarshalJSON (tx sender recipient v))))
            (sigR sg) (sigS sg))"
proof -
  have "objs h1 t = tx sender recipient v"
    by (rule NewTransaction_result [OF assms])
  then show ?thesis
    by (simp add: VerifyTransactionSignature_def Let_def)
qed

lemma AddTransaction_wf:
  assumes "wf_state h bc" and "AddTransaction L h bc sender recipient v pk s = Inr (ok, h', bc')"
  shows "wf_state h' bc' \<and> heap_extends h h' \<and> chain_bc bc' = chain_bc bc
         \<and> blockchainAddress bc' = blockchainAddress bc \<and> port bc' = port bc"
proof -
  obtain t h1 where nt: "NewTransaction h sender recipient v = (t, h1)"
    by (cases "NewTransaction h sender recipient v") auto
  note ext = NewTransaction_extends [OF nt]
  note res = NewTransaction_result [OF nt]
  have h': "h' = h1"
    using assms(2) by (auto simp add: AddTransaction_cases [OF nt] split: if_splits sum.splits)
  have bc': "bc' = bc \<or> bc' = bc\<lparr>transactionPool := append_slice (transactionPool bc) t\<rparr>"
    using assms(2) by (auto simp add: AddTransaction_cases [OF nt] split: if_splits sum.splits)
  have wf1: "wf_state h1 bc"
    using assms(1) ext by (auto simp add: wf_state_def allocated_extends)
  have "allocated h1 (elems (transactionPool bc) @ [t])"
    using wf1 res by (auto simp add: wf_state_def allocated_def)
  then have wf2: "wf_state h1 (bc\<lparr>transactionPool := append_slice (transactionPool bc) t\<rparr>)"
    using wf1 by (simp add: wf_state_def append_slice_def)
  show ?thesis using h' bc' wf1 wf2 ext by auto
qed

text \<open>
  Claim C5. After \<^verbatim>\<open>CreateBlock\<close> the transaction pool is empty, and the new block holds
  the pool as it was before the call: the same slice, hence the same number of
  transactions with the same sender, recipient and value, in the same order. The block
  is appended to the chain.
\<close>

theorem CreateBlock_clears_pool:
  "CreateBlock now bc n prev = (b, bc') \<Longrightarrow>
     elems (transactionPool bc') = [] \<and>
     transactions b = transactionPool bc \<and>
     length (block_contents h b) = length (pool_contents h bc) \<and>
     block_contents h b = pool_contents h bc \<and>
     chain_bc bc' = chain_bc bc @ [b]"
  by (auto simp add: CreateBlock_def NewBlock_def Let_def pool_contents_def block_contents_def)

text \<open>
  Claim C4. \<^verbatim>\<open>AddTransaction\<close> is a signature gate. For the mining sender it appends the
  transaction and returns true, whatever key and signature are passed. For any other
  sender with a signature \<open>sg\<close>: if \<^verbatim>\<open>ecdsa.Verify\<close> accepts the digest of the
  transaction, the transaction is appended and the result is true; if it rejects, the
  result is false and the pool is unchanged, in length and in contents.
\<close>

theorem AddTransaction_signature_gate:
  assumes "wf_state h bc"
  shows
    "(sender = MiningSender \<longrightarrow>
        (\<exists>h' bc'. AddTransaction L h bc sender recipient v pk s = Inr (True, h', bc') \<and>
                  pool_contents h' bc' = pool_contents h bc @ [tx sender recipient v])) \<and>
     (sender \<noteq> MiningSender \<longrightarrow>
        (\<forall>sg. s = Some sg \<longrightarrow>
           (let d = sha256_Sum256 L (marshal_ignoring_error L
                      (Transaction_MarshalJSON (tx sender recipient v)))
            in (ecdsa_Verify L pk d (sigR sg) (sigS sg) = Inr True \<longrightarrow>
                  (\<exists>h' bc'. AddTransaction L h bc sender recipient v pk s = Inr (True, h', bc') \<and>
                     pool_contents h' bc' = pool_contents h bc @ [tx sender recipient v])) \<and>
               (ecdsa_Verify L pk d (sigR sg) (sigS sg) = Inr False \<longrightarrow>
                  (\<exists>h' bc'. AddTransaction L h bc sender recipient v pk s = Inr (False, h', bc') \<and>
                     transactionPool bc' = transactionPool bc \<and>
                     length (pool_contents h' bc') = length (pool_contents h bc) \<and>
                     pool_contents h' bc' = pool_contents h bc)))))"
proof -
  obtain t h1 where nt: "NewTransaction h sender recipient v = (t, h1)"
    by (cases "NewTransaction h sender recipient v") auto
  note ext = NewTransaction_extends [OF nt]
  note res = NewTransaction_result [OF nt]
  have same: "pool_contents h1 bc = pool_contents h bc"
    using ext assms by (rule pool_contents_extends)
  have grown: "pool_contents h1 (bc\<lparr>transactionPool := append_slice (transactionPool bc) t\<rparr>)
                 = pool_contents h bc @ [tx sender recipient v]"
    using same res(3) by (simp add: pool_contents_def append_slice_def)
  let ?bcA = "bc\<lparr>transactionPool := append_slice (transactionPool bc) t\<rparr>"
  let ?d = "sha256_Sum256 L (marshal_ignoring_error L
              (Transaction_MarshalJSON (tx sender recipient v)))"
  have mine: "AddTransaction L h bc sender recipient v pk s = Inr (True, h1, ?bcA)"
    if "sender = MiningSender"
    unfolding AddTransaction_cases [OF nt] using that by simp
  have acc: "AddTransaction L h bc sender recipient v pk s = Inr (True, h1, ?bcA)"
    if "sender \<noteq> MiningSender" "s = Some sg"
       "ecdsa_Verify L pk ?d (sigR sg) (sigS sg) = Inr True" for sg
    unfolding AddTransaction_cases [OF nt] VerifyTransactionSignature_new [OF nt]
    using that by simp
  have rej: "AddTransaction L h bc sender recipient v pk s = Inr (False, h1, bc)"
    if "sender \<noteq> MiningSender" "s = Some sg"
       "ecdsa_Verify L pk ?d (sigR sg) (sigS sg) = Inr False" for sg
    unfolding AddTransaction_cases [OF nt] VerifyTransactionSignature_new [OF nt]
    using that by simp
  show ?thesis
    unfolding Let_def
  proof (intro conjI impI allI)
    assume "sender = MiningSender"
    from mine [OF this] grown
    show "\<exists>h' bc'. AddTransaction L h bc sender recipient v pk s = Inr (True, h', bc') \<and>
            pool_contents h' bc' = pool_contents h bc @ [tx sender recipient v]"
      by blast
  next
    fix sg
    assume "sender \<noteq> MiningSender" "s = Some sg"
      "ecdsa_Verify L pk ?d (sigR sg) (sigS sg) = Inr True"
    from acc [OF this] grown
    show "\<exists>h' bc'. AddTransaction L h bc sender recipient v pk s = Inr (True, h', bc') \<and>
            pool_contents h' bc' = pool_contents h bc @ [tx sender recipient v]"
      by blast
  next
    fix sg
    assume "sender \<noteq> MiningSender" "s = Some sg"
      "ecdsa_Verify L pk ?d (sigR sg) (sigS sg) = Inr False"
    from rej [OF this] same
    show "\<exists>h' bc'. AddTransaction L h bc sender recipient v pk s = Inr (False, h', bc') \<and>
            transactionPool bc' = transactionPool bc \<and>
            length (pool_contents h' bc') = length (pool_contents h bc) \<and>
            pool_contents h' bc' = pool_contents h bc"
      by auto
  qed
qed

text \<open>
  Claim C7, as amended. For a sender other than the mining sender, \<^verbatim>\<open>AddTransaction\<close>
  with a nil signature panics with a nil dereference (\<^verbatim>\<open>s.R\<close> is read through the nil
  pointer), and it returns a boolean exactly when the signature is not nil and
  \<^verbatim>\<open>ecdsa.Verify\<close> itself returns one.
\<close>

theorem AddTransaction_returns_iff:
  "sender \<noteq> MiningSender \<Longrightarrow>
     AddTransaction L h bc sender recipient v pk None = Inl NilDereference \<and>
     ((\<exists>res. AddTransaction L h bc sender recipient v pk s = Inr res) =
      (\<exists>sg ok. s = Some sg \<and>
         ecdsa_Verify L pk
           (sha256_Sum256 L (marshal_ignoring_error L
              (Transaction_MarshalJSON (tx sender recipient v))))
           (sigR sg) (sigS sg) = Inr ok))"
proof -
  assume ns: "sender \<noteq> MiningSender"
  obtain t h1 where nt: "NewTransaction h sender recipient v = (t, h1)"
    by (cases "NewTransaction h sender recipient v") auto
  show ?thesis
    using ns
    by (cases s)
       (auto simp add: AddTransaction_cases [OF nt] VerifyTransactionSignature_new [OF nt]
             split: sum.splits)
qed

text \<open>
  Claim C10. A call of \<^verbatim>\<open>AddTransaction\<close> that returns changes only the transaction
  pool: the chain, the address and the port of the ledger are unchanged, the
  transactions stored in the chain are unchanged, and so is \<^verbatim>\<open>CalculateTotalAmount\<close> for
  every address.
\<close>

theorem AddTransaction_frame:
  assumes "wf_state h bc"
    and "AddTransaction L h bc sender recipient v pk s = Inr (ok, h', bc')"
  shows "chain_bc bc' = chain_bc bc \<and>
         blockchainAddress bc' = blockchainAddress bc \<and> port bc' = port bc \<and>
         chain_transactions h' bc' = chain_transactions h bc \<and>
         CalculateTotalAmount h' bc' a = CalculateTotalAmount h bc a"
proof -
  from AddTransaction_wf [OF assms]
  have ext: "heap_extends h h'" and ch: "chain_bc bc' = chain_bc bc"
    and rest: "blockchainAddress bc' = blockchainAddress bc" "port bc' = port bc"
    by simp_all
  have "chain_transactions h' bc' = chain_transactions h' bc"
    using ch by (simp add: chain_transactions_def)
  also have "\<dots> = chain_transactions h bc"
    using ext assms(1) by (rule chain_transactions_extends)
  finally have ct: "chain_transactions h' bc' = chain_transactions h bc" .
  show ?thesis using ch rest ct by (simp add: CalculateTotalAmount_scan)
qed

section \<open>The proof-of-work search\<close>

lemma length_hex256: "length (hex256 w) = 64"
  by (simp add: hex256_def)

lemma ValidProof_MiningDifficulty:
  "ValidProof L h n prev ts MiningDifficulty =
     Inr (take 3 (hex256 (Hash L h
            \<lparr>timestamp = 0, nonce = n, previousHash = prev, transactions = ts\<rparr>)) = ''000'')"
  by (simp add: ValidProof_def MiningDifficulty_def Let_def length_hex256 numeral_3_eq_3)

lemma ValidProof_not_True:
  "ValidProof L h n prev ts MiningDifficulty \<noteq> Inr True \<Longrightarrow>
     ValidProof L h n prev ts MiningDifficulty = Inr False"
  by (simp add: ValidProof_MiningDifficulty)

lemma sint_nonneg_uint:
  fixes w :: "64 word"
  assumes "0 \<le> sint w"
  shows "uint w = sint w"
proof -
  have "sint w < 2 ^ 64"
    using sint_lt [of w] by simp
  then have "take_bit 64 (sint w) = sint w"
    using assms by (simp add: take_bit_int_eq_self)
  then show ?thesis
    using uint_sint [of w] by simp
qed

lemma uint_small_sint:
  fixes w :: "64 word"
  assumes "uint w < 2 ^ 63"
  shows "sint w = uint w"
proof -
  have "signed_take_bit 63 (uint w) = uint w"
  proof (rule signed_take_bit_int_eq_self)
    have "- (2 ^ 63) \<le> (0::int)" by simp
    also have "0 \<le> uint w" by simp
    finally show "- (2 ^ 63) \<le> uint w" .
    show "uint w < 2 ^ 63" by (rule assms)
  qed
  then show ?thesis
    using sint_uint [of w] by simp
qed

lemma less_nonneg_nonneg:
  fixes k m :: "64 word"
  assumes "k < m" and "0 \<le> sint m"
  shows "0 \<le> sint k"
proof -
  have "uint k < uint m" using assms(1) by (simp add: word_less_def)
  moreover have "uint m < 2 ^ 63"
    using sint_nonneg_uint [OF assms(2)] sint_lt [of m] by simp
  ultimately have "uint k < 2 ^ 63" by simp
  then show ?thesis using uint_small_sint [of k] by simp
qed

lemma sless_nonneg_less:
  fixes k m :: "64 word"
  assumes "0 \<le> sint k" and "sint k < sint m"
  shows "k < m"
proof -
  have "0 \<le> sint m" using assms by simp
  then show ?thesis
    using assms sint_nonneg_uint [of k] sint_nonneg_uint [of m]
    by (simp add: word_less_def)
qed

lemma ProofOfWork_loop_finds:
  fixes n m :: "64 word"
  assumes "ValidProof L h m prev ts MiningDifficulty = Inr True"
    and "\<forall>k. n \<le> k \<and> k < m \<longrightarrow> ValidProof L h k prev ts MiningDifficulty = Inr False"
    and "n \<le> m"
  shows "ProofOfWork_loop L h prev ts n = Some (Inr m)"
  using assms(2,3)
proof (induction d \<equiv> "unat m - unat n" arbitrary: n)
  case 0
  then have "n = m" by (simp add: word_le_nat_alt word_unat_eq_iff)
  then show ?case
    using assms(1) by (subst ProofOfWork_loop.simps) simp
next
  case (Suc d)
  then have lt: "n < m" by (simp add: word_less_nat_alt)
  then have invalid: "ValidProof L h n prev ts MiningDifficulty = Inr False"
    using Suc.prems by simp
  have nz: "1 + n \<noteq> 0" using lt by unat_arith
  have suc: "unat (n + 1) = Suc (unat n)"
    using unatSuc [OF nz] by (simp add: add.commute)
  have le: "n + 1 \<le> m" using lt by (rule inc_le)
  have "n \<le> n + 1" using suc by (simp add: word_le_nat_alt)
  then have rest: "\<forall>k. n + 1 \<le> k \<and> k < m \<longrightarrow>
      ValidProof L h k prev ts MiningDifficulty = Inr False"
    using Suc.prems(1) by auto
  have "d = unat m - unat (n + 1)" using Suc.hyps(2) suc by simp
  from Suc.hyps(1) [OF this rest le]
  have "ProofOfWork_loop L h prev ts (n + 1) = Some (Inr m)" .
  then show ?case
    using invalid by (subst ProofOfWork_loop.simps) simp
qed

lemma least_valid_nonce:
  fixes P :: "64 word \<Rightarrow> bool"
  assumes "0 \<le> sint m" and "P m"
  shows "\<exists>n. 0 \<le> sint n \<and> P n \<and> (\<forall>k. k < n \<longrightarrow> \<not> P k)"
proof -
  let ?Q = "\<lambda>k. 0 \<le> sint k \<and> P k"
  have "?Q m" using assms by simp
  from ex_has_least_nat [of ?Q m unat, OF this]
  obtain n where n: "?Q n" and least: "\<forall>y. ?Q y \<longrightarrow> unat n \<le> unat y" by blast
  have "\<not> P k" if "k < n" for k
  proof
    assume "P k"
    moreover have "0 \<le> sint k" using that n by (auto intro: less_nonneg_nonneg)
    ultimately have "unat n \<le> unat k" using least by simp
    then show False using that by (simp add: word_less_nat_alt)
  qed
  then show ?thesis using n by blast
qed

lemma ProofOfWork_solvable:
  assumes "solvable L h bc"
  shows "\<exists>n lb ts h1.
      ProofOfWork L h bc = Some (Inr (n, h1)) \<and>
      LastBlock bc = Inr lb \<and> CopyTransactionPool h bc = (ts, h1) \<and>
      0 \<le> sint n \<and>
      ValidProof L h1 n (Hash L h1 lb) ts MiningDifficulty = Inr True \<and>
      (\<forall>m. 0 \<le> sint m \<and> sint m < sint n \<longrightarrow>
           ValidProof L h1 m (Hash L h1 lb) ts MiningDifficulty = Inr False)"
proof -
  obtain ts h1 where cp: "CopyTransactionPool h bc = (ts, h1)"
    by (cases "CopyTransactionPool h bc") auto
  from assms obtain lb where lb: "LastBlock bc = Inr lb"
    by (auto simp add: solvable_def split: sum.splits)
  let ?V = "\<lambda>k. ValidProof L h1 k (Hash L h1 lb) ts MiningDifficulty"
  from assms cp lb obtain m where "0 \<le> sint m" and "?V m = Inr True"
    by (auto simp add: solvable_def)
  from least_valid_nonce [of m "\<lambda>k. ?V k = Inr True", OF this]
  obtain n where nn: "0 \<le> sint n" and vn: "?V n = Inr True"
    and least: "\<forall>k. k < n \<longrightarrow> ?V k \<noteq> Inr True" by blast
  have below: "\<forall>k. k < n \<longrightarrow> ?V k = Inr False"
    using least by (auto intro: ValidProof_not_True)
  then have "ProofOfWork_loop L h1 (Hash L h1 lb) ts 0 = Some (Inr n)"
    using vn by (intro ProofOfWork_loop_finds) auto
  then have "ProofOfWork L h bc = Some (Inr (n, h1))"
    using cp lb by (simp add: ProofOfWork_def)
  moreover have "\<forall>m. 0 \<le> sint m \<and> sint m < sint n \<longrightarrow> ?V m = Inr False"
    using below by (auto intro: sless_nonneg_less)
  ultimately show ?thesis using cp lb nn vn by blast
qed

lemma ProofOfWork_loop_valid_aux:
  assumes "ProofOfWork_loop L h prev ts n0 = Some y"
  shows "\<forall>n. y = Inr n \<longrightarrow> ValidProof L h n prev ts MiningDifficulty = Inr True"
  by (rule ProofOfWork_loop.raw_induct
        [where P = "\<lambda>L h prev ts n0 y.
           \<forall>n. y = Inr n \<longrightarrow> ValidProof L h n prev ts MiningDifficulty = Inr True",
         OF _ assms])
     (auto split: sum.splits if_splits)

lemma ProofOfWork_loop_valid:
  "ProofOfWork_loop L h prev ts n0 = Some (Inr n) \<Longrightarrow>
     ValidProof L h n prev ts MiningDifficulty = Inr True"
  using ProofOfWork_loop_valid_aux by blast

lemma ProofOfWork_result:
  assumes "ProofOfWork L h bc = Some (Inr (n, h'))"
  shows "\<exists>ts lb. CopyTransactionPool h bc = (ts, h') \<and> LastBlock bc = Inr lb \<and>
           ValidProof L h' n (Hash L h' lb) ts MiningDifficulty = Inr True"
proof -
  obtain ts h1 where cp: "CopyTransactionPool h bc = (ts, h1)"
    by (cases "CopyTransactionPool h bc") auto
  from assms cp obtain lb where lb: "LastBlock bc = Inr lb"
    by (cases "LastBlock bc") (auto simp add: ProofOfWork_def)
  from assms cp lb have "h1 = h'"
    and "ProofOfWork_loop L h1 (Hash L h1 lb) ts 0 = Some (Inr n)"
    by (auto simp add: ProofOfWork_def split: option.splits sum.splits)
  then show ?thesis using cp lb ProofOfWork_loop_valid by blast
qed

lemma unat_pred:
  fixes x :: "64 word"
  shows "x \<noteq> 0 \<Longrightarrow> unat (x - 1) = unat x - 1"
  by (rule unat_minus_one)

lemma ProofOfWork_loop_first_aux:
  assumes "ProofOfWork_loop L h prev ts n0 = Some y"
  shows "\<forall>n. y = Inr n \<longrightarrow>
           (\<forall>k. unat (k - n0) < unat (n - n0) \<longrightarrow>
                ValidProof L h k prev ts MiningDifficulty = Inr False)"
proof (rule ProofOfWork_loop.raw_induct
        [where P = "\<lambda>L h prev ts n0 y. \<forall>n. y = Inr n \<longrightarrow>
           (\<forall>k. unat (k - n0) < unat (n - n0) \<longrightarrow>
                ValidProof L h k prev ts MiningDifficulty = Inr False)",
         OF _ assms], goal_cases)
  case (1 loop L h prev ts n0 y)
  show ?case
  proof (intro allI impI)
    fix n k :: "64 word"
    assume y: "y = Inr n" and lt: "unat (k - n0) < unat (n - n0)"
    from 1(2) y have inv0: "ValidProof L h n0 prev ts MiningDifficulty = Inr False"
      and rec: "loop L h prev ts (n0 + 1) = Some (Inr n)"
      using lt by (auto split: sum.splits if_splits)
    show "ValidProof L h k prev ts MiningDifficulty = Inr False"
    proof (cases "k = n0")
      case True
      then show ?thesis using inv0 by simp
    next
      case False
      then have k0: "k - n0 \<noteq> 0" by simp
      from lt have n0': "n - n0 \<noteq> 0" by (auto simp add: unat_gt_0 [symmetric])
      have kp: "0 < unat (k - n0)" using k0 by (simp add: unat_gt_0)
      have "unat (k - n0 - 1) = unat (k - n0) - 1" by (rule unat_pred [OF k0])
      moreover have "unat (n - n0 - 1) = unat (n - n0) - 1" by (rule unat_pred [OF n0'])
      ultimately have "unat (k - n0 - 1) < unat (n - n0 - 1)"
        using lt kp by arith
      moreover have "k - n0 - 1 = k - (n0 + 1)" "n - n0 - 1 = n - (n0 + 1)"
        by simp_all
      ultimately have "unat (k - (n0 + 1)) < unat (n - (n0 + 1))" by simp
      with 1(1) [OF rec] show ?thesis by blast
    qed
  qed
qed

lemma ProofOfWork_loop_first:
  assumes "ProofOfWork_loop L h prev ts 0 = Some (Inr n)"
  shows "\<forall>k. k < n \<longrightarrow> ValidProof L h k prev ts MiningDifficulty = Inr False"
  using ProofOfWork_loop_first_aux [OF assms] by (simp add: word_less_nat_alt)

lemma ProofOfWork_result_first:
  assumes "ProofOfWork L h bc = Some (Inr (n, h'))"
  shows "\<exists>ts lb. CopyTransactionPool h bc = (ts, h') \<and> LastBlock bc = Inr lb \<and>
           ValidProof L h' n (Hash L h' lb) ts MiningDifficulty = Inr True \<and>
           (\<forall>m. m < n \<longrightarrow> ValidProof L h' m (Hash L h' lb) ts MiningDifficulty = Inr False)"
proof -
  obtain ts h1 where cp: "CopyTransactionPool h bc = (ts, h1)"
    by (cases "CopyTransactionPool h bc") auto
  from assms cp obtain lb where lb: "LastBlock bc = Inr lb"
    by (cases "LastBlock bc") (auto simp add: ProofOfWork_def)
  from assms cp lb have "h1 = h'"
    and "ProofOfWork_loop L h1 (Hash L h1 lb) ts 0 = Some (Inr n)"
    by (auto simp add: ProofOfWork_def split: option.splits sum.splits)
  then show ?thesis using cp lb ProofOfWork_loop_valid ProofOfWork_loop_first by blast
qed

text \<open>
  Claim C3. \<^verbatim>\<open>ProofOfWork\<close> returns the smallest valid nonce. When some non-negative
  nonce is valid, \<^verbatim>\<open>ProofOfWork\<close> returns, the nonce \<open>n\<close> it returns is non-negative, the
  hash of the candidate block with timestamp 0, nonce \<open>n\<close>, the hash of the last block
  and the copy of the pool starts with three \<open>0\<close> digits, and \<^verbatim>\<open>ValidProof\<close> is false
  for every non-negative nonce below \<open>n\<close>. And whenever \<^verbatim>\<open>ProofOfWork\<close> returns a nonce
  \<open>n\<close>, \<^verbatim>\<open>ValidProof\<close> holds at \<open>n\<close> and is false at every nonce the search visited
  before \<open>n\<close> (the nonces below \<open>n\<close> as unsigned 64-bit numbers).
\<close>

theorem ProofOfWork_least_nonce:
  "(solvable L h bc \<longrightarrow>
     (\<exists>n lb ts h1.
        ProofOfWork L h bc = Some (Inr (n, h1)) \<and>
        LastBlock bc = Inr lb \<and> CopyTransactionPool h bc = (ts, h1) \<and>
        0 \<le> sint n \<and>
        ValidProof L h1 n (Hash L h1 lb) ts MiningDifficulty = Inr True \<and>
        take 3 (hex256 (Hash L h1
          \<lparr>timestamp = 0, nonce = n, previousHash = Hash L h1 lb, transactions = ts\<rparr>))
          = ''000'' \<and>
        (\<forall>m. 0 \<le> sint m \<and> sint m < sint n \<longrightarrow>
             ValidProof L h1 m (Hash L h1 lb) ts MiningDifficulty = Inr False))) \<and>
   (\<forall>n h1. ProofOfWork L h bc = Some (Inr (n, h1)) \<longrightarrow>
     (\<exists>lb ts.
        LastBlock bc = Inr lb \<and> CopyTransactionPool h bc = (ts, h1) \<and>
        ValidProof L h1 n (Hash L h1 lb) ts MiningDifficulty = Inr True \<and>
        (\<forall>m. m < n \<longrightarrow> ValidProof L h1 m (Hash L h1 lb) ts MiningDifficulty = Inr False)))"
proof (intro conjI impI allI)
  assume "solvable L h bc"
  from ProofOfWork_solvable [OF this]
  obtain n lb ts h1 where r:
    "ProofOfWork L h bc = Some (Inr (n, h1))"
    "LastBlock bc = Inr lb" "CopyTransactionPool h bc = (ts, h1)"
    "0 \<le> sint n"
    "ValidProof L h1 n (Hash L h1 lb) ts MiningDifficulty = Inr True"
    "\<forall>m. 0 \<le> sint m \<and> sint m < sint n \<longrightarrow>
         ValidProof L h1 m (Hash L h1 lb) ts MiningDifficulty = Inr False"
    by blast
  from r(5) have "take 3 (hex256 (Hash L h1
        \<lparr>timestamp = 0, nonce = n, previousHash = Hash L h1 lb, transactions = ts\<rparr>)) = ''000''"
    by (simp add: ValidProof_MiningDifficulty)
  with r show "\<exists>n lb ts h1.
        ProofOfWork L h bc = Some (Inr (n, h1)) \<and>
        LastBlock bc = Inr lb \<and> CopyTransactionPool h bc = (ts, h1) \<and>
        0 \<le> sint n \<and>
        ValidProof L h1 n (Hash L h1 lb) ts MiningDifficulty = Inr True \<and>
        take 3 (hex256 (Hash L h1
          \<lparr>timestamp = 0, nonce = n, previousHash = Hash L h1 lb, transactions = ts\<rparr>))
          = ''000'' \<and>
        (\<forall>m. 0 \<le> sint m \<and> sint m < sint n \<longrightarrow>
             ValidProof L h1 m (Hash L h1 lb) ts MiningDifficulty = Inr False)"
    by blast
next
  fix n h1
  assume "ProofOfWork L h bc = Some (Inr (n, h1))"
  from ProofOfWork_result_first [OF this]
  show "\<exists>lb ts.
        LastBlock bc = Inr lb \<and> CopyTransactionPool h bc = (ts, h1) \<and>
        ValidProof L h1 n (Hash L h1 lb) ts MiningDifficulty = Inr True \<and>
        (\<forall>m. m < n \<longrightarrow> ValidProof L h1 m (Hash L h1 lb) ts MiningDifficulty = Inr False)"
    by blast
qed

lemma LastBlock_last:
  "chain_bc bc \<noteq> [] \<Longrightarrow> LastBlock bc = Inr (last (chain_bc bc))"
  by (simp add: LastBlock_def last_conv_nth)

lemma Mining_unfold:
  assumes "AddTransaction L h bc MiningSender (blockchainAddress bc) MiningReward None None
             = Inr (ok, h1, bc1)"
    and "ProofOfWork L h1 bc1 = Some (Inr (n, h2))"
    and "LastBlock bc1 = Inr lb"
  shows "Mining L now h bc =
     Some (Inr (True, h2, snd (CreateBlock now bc1 n (Hash L h2 lb))))"
  using assms by (simp add: Mining_def split_beta)

text \<open>
  Claim C8. When some non-negative nonce is valid for the ledger, the search of
  \<^verbatim>\<open>ProofOfWork\<close> ends and returns a nonce; when that holds for the ledger after the
  reward transaction has been added, \<^verbatim>\<open>Mining\<close> ends, returns true and appends one
  block.
\<close>

theorem Mining_terminates:
  "(solvable L h bc \<longrightarrow> (\<exists>n h1. ProofOfWork L h bc = Some (Inr (n, h1)))) \<and>
   (\<forall>ok h1 bc1.
      AddTransaction L h bc MiningSender (blockchainAddress bc) MiningReward None None
        = Inr (ok, h1, bc1) \<and> solvable L h1 bc1 \<longrightarrow>
      (\<exists>h2 bc2. Mining L now h bc = Some (Inr (True, h2, bc2)) \<and>
                 length (chain_bc bc2) = Suc (length (chain_bc bc1))))"
proof (intro conjI impI allI)
  assume "solvable L h bc"
  from ProofOfWork_solvable [OF this]
  show "\<exists>n h1. ProofOfWork L h bc = Some (Inr (n, h1))" by blast
next
  fix ok h1 bc1
  assume a: "AddTransaction L h bc MiningSender (blockchainAddress bc) MiningReward None None
        = Inr (ok, h1, bc1) \<and> solvable L h1 bc1"
  from ProofOfWork_solvable [of L h1 bc1] a
  obtain n lb h2 where pw: "ProofOfWork L h1 bc1 = Some (Inr (n, h2))"
    and lb: "LastBlock bc1 = Inr lb" by blast
  have "Mining L now h bc =
     Some (Inr (True, h2, snd (CreateBlock now bc1 n (Hash L h2 lb))))"
    using a pw lb by (intro Mining_unfold) auto
  moreover have "length (chain_bc (snd (CreateBlock now bc1 n (Hash L h2 lb))))
                   = Suc (length (chain_bc bc1))"
    by (simp add: CreateBlock_def Let_def)
  ultimately show "\<exists>h2 bc2. Mining L now h bc = Some (Inr (True, h2, bc2)) \<and>
                 length (chain_bc bc2) = Suc (length (chain_bc bc1))"
    by blast
qed

section \<open>The copy of the pool\<close>

lemma copy_loop_Cons:
  assumes "NewTransaction h (senderBlockchainAddress (objs h p))
      (recipientBlockchainAddress (objs h p)) (value_tx (objs h p)) = (q, h1)"
  shows "copy_loop h acc (p # ps) = copy_loop h1 (acc @ [q]) ps"
  using assms by (simp add: Let_def)

lemma upt_shift: "[n ..< Suc (n + k)] = n # [Suc n ..< Suc (n + k)]"
  by (simp add: upt_conv_Cons)

lemma copy_loop_spec_aux:
  "copy_loop h acc ps = (qs, h') \<Longrightarrow>
     heap_extends h h' \<and>
     next_free h' = next_free h + length ps \<and>
     qs = acc @ [next_free h ..< next_free h + length ps] \<and>
     (allocated h ps \<longrightarrow>
        map (objs h') [next_free h ..< next_free h + length ps] = map (objs h) ps)"
proof (induction ps arbitrary: h acc)
  case Nil
  then show ?case by (simp add: heap_extends_refl)
next
  case (Cons p ps)
  let ?t = "objs h p"
  obtain q h1 where nt: "NewTransaction h (senderBlockchainAddress ?t)
      (recipientBlockchainAddress ?t) (value_tx ?t) = (q, h1)"
    by (cases "NewTransaction h (senderBlockchainAddress ?t)
      (recipientBlockchainAddress ?t) (value_tx ?t)") auto
  note ext = NewTransaction_extends [OF nt]
  note res = NewTransaction_result [OF nt]
  have obj: "objs h1 q = ?t" using res(3) by (simp add: tx_def)
  from Cons.prems have rec: "copy_loop h1 (acc @ [q]) ps = (qs, h')"
    by (simp only: copy_loop_Cons [OF nt])
  note ih = Cons.IH [OF rec]
  from ih have ext1: "heap_extends h1 h'" by blast
  have e: "heap_extends h h'" using ext ext1 by (rule heap_extends_trans)
  have n: "next_free h' = next_free h + length (p # ps)" using ih res(2) by simp
  have q: "qs = acc @ [next_free h ..< next_free h + length (p # ps)]"
    using ih res(1,2) by (simp add: upt_shift del: upt_Suc)
  have v: "map (objs h') [next_free h ..< next_free h + length (p # ps)] = map (objs h) (p # ps)"
    if a: "allocated h (p # ps)"
  proof -
    have al: "allocated h ps" using a by (simp add: allocated_def)
    have al1: "allocated h1 ps" using ext al by (rule allocated_extends)
    have "objs h' (next_free h) = objs h1 (next_free h)"
      using ext1 res(1,2) by (simp add: heap_extends_def)
    then have hd: "objs h' (next_free h) = objs h p" using obj res(1) by simp
    have "map (objs h') [next_free h1 ..< next_free h1 + length ps] = map (objs h1) ps"
      using ih al1 by blast
    also have "\<dots> = map (objs h) ps" using ext al by (rule map_objs_extends)
    finally show ?thesis using hd res(2) by (simp add: upt_shift del: upt_Suc)
  qed
  show ?case using e n q v by blast
qed

lemma copy_loop_spec:
  assumes "copy_loop h acc ps = (qs, h')"
  shows "heap_extends h h'"
    and "next_free h' = next_free h + length ps"
    and "qs = acc @ [next_free h ..< next_free h + length ps]"
    and "allocated h ps \<Longrightarrow>
           map (objs h') [next_free h ..< next_free h + length ps] = map (objs h) ps"
  using copy_loop_spec_aux [OF assms] by blast+

lemma CopyTransactionPool_spec:
  assumes "CopyTransactionPool h bc = (ts, h')"
    and "allocated h (elems (transactionPool bc))"
  shows "heap_extends h h'"
    and "ts = Slice [next_free h ..< next_free h']"
    and "next_free h' = next_free h + length (elems (transactionPool bc))"
    and "map (objs h') (elems ts) = pool_contents h bc"
proof -
  obtain qs where cl: "copy_loop h [] (elems (transactionPool bc)) = (qs, h')"
    and ts: "ts = Slice qs"
    using assms(1) by (auto simp add: CopyTransactionPool_def split: prod.splits)
  note sp = copy_loop_spec [OF cl]
  show "heap_extends h h'" by (rule sp(1))
  show "next_free h' = next_free h + length (elems (transactionPool bc))" by (rule sp(2))
  show "ts = Slice [next_free h ..< next_free h']" using ts sp(2,3) by simp
  show "map (objs h') (elems ts) = pool_contents h bc"
    using ts sp(3) sp(4) [OF assms(2)] by (simp add: pool_contents_def)
qed

text \<open>
  Claim C9. \<^verbatim>\<open>ProofOfWork\<close> only allocates: every transaction allocated before the call
  is unchanged after it, so the pool and the chain of the ledger hold what they held
  and every block hashes as before. The slice it searches over is the fresh copy made
  by \<^verbatim>\<open>CopyTransactionPool\<close>: as many transactions as the pool, with the same fields in
  the same order, at addresses that were not allocated before the call, pairwise
  distinct and distinct from every address in the pool.
\<close>

theorem ProofOfWork_read_only:
  assumes "wf_state h bc" and "ProofOfWork L h bc = Some (Inr (n, h'))"
  shows "heap_extends h h' \<and>
         pool_contents h' bc = pool_contents h bc \<and>
         chain_transactions h' bc = chain_transactions h bc \<and>
         (\<forall>b \<in> set (chain_bc bc). Hash L h' b = Hash L h b) \<and>
         (\<exists>qs. CopyTransactionPool h bc = (Slice qs, h') \<and>
               length qs = length (elems (transactionPool bc)) \<and>
               map (objs h') qs = pool_contents h bc \<and>
               distinct qs \<and>
               set qs \<inter> set (elems (transactionPool bc)) = {} \<and>
               (\<forall>q \<in> set qs. next_free h \<le> q \<and> q < next_free h'))"
proof -
  from ProofOfWork_result [OF assms(2)]
  obtain ts where cp: "CopyTransactionPool h bc = (ts, h')" by blast
  have al: "allocated h (elems (transactionPool bc))"
    using assms(1) by (simp add: wf_state_def)
  note sp = CopyTransactionPool_spec [OF cp al]
  let ?qs = "[next_free h ..< next_free h']"
  have ext: "heap_extends h h'" by (rule sp(1))
  have hashes: "\<forall>b \<in> set (chain_bc bc). Hash L h' b = Hash L h b"
    using ext assms(1) by (auto simp add: wf_state_def Hash_extends)
  have disj: "set ?qs \<inter> set (elems (transactionPool bc)) = {}"
    using al by (auto simp add: allocated_def)
  have copy: "CopyTransactionPool h bc = (Slice ?qs, h') \<and>
               length ?qs = length (elems (transactionPool bc)) \<and>
               map (objs h') ?qs = pool_contents h bc \<and>
               distinct ?qs \<and>
               set ?qs \<inter> set (elems (transactionPool bc)) = {} \<and>
               (\<forall>q \<in> set ?qs. next_free h \<le> q \<and> q < next_free h')"
    using cp sp(2,3,4) disj by auto
  show ?thesis
    using ext pool_contents_extends [OF ext assms(1)]
      chain_transactions_extends [OF ext assms(1)] hashes copy
    by blast
qed

lemma linked_extends:
  assumes "heap_extends h h'" and "\<forall>b \<in> set bs. allocated h (elems (transactions b))"
    and "linked L h bs"
  shows "linked L h' bs"
  unfolding linked_def
proof (intro allI impI)
  fix i
  assume "1 \<le> i \<and> i < length bs"
  then have i1: "1 \<le> i" and i2: "i < length bs" by simp_all
  from i2 have "i - 1 < length bs" by simp
  then have "bs ! (i - 1) \<in> set bs" by (rule nth_mem)
  then have "allocated h (elems (transactions (bs ! (i - 1))))"
    using assms(2) by blast
  then have "Hash L h' (bs ! (i - 1)) = Hash L h (bs ! (i - 1))"
    by (rule Hash_extends [OF assms(1)])
  moreover have "previousHash (bs ! i) = Hash L h (bs ! (i - 1))"
    using assms(3) i1 i2 unfolding linked_def by blast
  ultimately show "previousHash (bs ! i) = Hash L h' (bs ! (i - 1))" by simp
qed

lemma sealed_extends:
  assumes "heap_extends h h'" and "\<forall>b \<in> set bs. allocated h (elems (transactions b))"
    and "sealed L h bs"
  shows "sealed L h' bs"
  unfolding sealed_def
proof (intro allI impI)
  fix i
  assume "1 \<le> i \<and> i < length bs"
  then have i1: "1 \<le> i" and i2: "i < length bs" by simp_all
  from i2 have "bs ! i \<in> set bs" by (rule nth_mem)
  then have "allocated h (elems (transactions (bs ! i)))"
    using assms(2) by blast
  then have "ValidProof L h' (nonce (bs ! i)) (previousHash (bs ! i)) (transactions (bs ! i))
          MiningDifficulty
        = ValidProof L h (nonce (bs ! i)) (previousHash (bs ! i)) (transactions (bs ! i))
          MiningDifficulty"
    by (rule ValidProof_extends [OF assms(1)])
  moreover have "ValidProof L h (nonce (bs ! i)) (previousHash (bs ! i)) (transactions (bs ! i))
          MiningDifficulty = Inr True"
    using assms(3) i1 i2 unfolding sealed_def by blast
  ultimately show "ValidProof L h' (nonce (bs ! i)) (previousHash (bs ! i))
          (transactions (bs ! i)) MiningDifficulty = Inr True" by simp
qed

lemma linked_snoc:
  assumes "bs \<noteq> []" and "linked L h bs" and "previousHash b = Hash L h (last bs)"
  shows "linked L h (bs @ [b])"
  unfolding linked_def
proof (intro allI impI)
  fix i
  assume i: "1 \<le> i \<and> i < length (bs @ [b])"
  show "previousHash ((bs @ [b]) ! i) = Hash L h ((bs @ [b]) ! (i - 1))"
  proof (cases "i < length bs")
    case True
    moreover from True have "i - 1 < length bs" by simp
    ultimately show ?thesis using i assms(2) by (simp add: linked_def nth_append)
  next
    case False
    then have "i = length bs" using i by simp
    then show ?thesis using assms(1,3) by (simp add: nth_append last_conv_nth)
  qed
qed

lemma sealed_snoc:
  assumes "bs \<noteq> []" and "sealed L h bs"
    and "ValidProof L h (nonce b) (previousHash b) (transactions b) MiningDifficulty = Inr True"
  shows "sealed L h (bs @ [b])"
  unfolding sealed_def
proof (intro allI impI)
  fix i
  assume i: "1 \<le> i \<and> i < length (bs @ [b])"
  show "ValidProof L h (nonce ((bs @ [b]) ! i)) (previousHash ((bs @ [b]) ! i))
          (transactions ((bs @ [b]) ! i)) MiningDifficulty = Inr True"
  proof (cases "i < length bs")
    case True
    then show ?thesis using i assms(2) by (simp add: sealed_def nth_append)
  next
    case False
    then have "i = length bs" using i by simp
    then show ?thesis using assms(3) by (simp add: nth_append)
  qed
qed

section \<open>The invariant of the reachable ledgers\<close>

lemma transactions_json_cong:
  assumes "map (objs h) qs = map (objs h) ps"
  shows "transactions_json h (Slice qs) = transactions_json h (Slice ps)"
  using arg_cong [OF assms, of "map Transaction_MarshalJSON"]
  by (simp add: transactions_json_def comp_def)

lemma ValidProof_json_cong:
  "transactions_json h ts = transactions_json h ts' \<Longrightarrow>
     ValidProof L h n prev ts d = ValidProof L h n prev ts' d"
  by (simp add: ValidProof_def Hash_def Block_MarshalJSON_def)

lemma Mining_result:
  assumes "Mining L now h bc = Some (Inr (ok, h', bc'))"
  shows "\<exists>t h1 n lb.
      NewTransaction h MiningSender (blockchainAddress bc) MiningReward = (t, h1) \<and>
      AddTransaction L h bc MiningSender (blockchainAddress bc) MiningReward None None
        = Inr (True, h1, bc\<lparr>transactionPool := append_slice (transactionPool bc) t\<rparr>) \<and>
      ProofOfWork L h1 (bc\<lparr>transactionPool := append_slice (transactionPool bc) t\<rparr>)
        = Some (Inr (n, h')) \<and>
      LastBlock bc = Inr lb \<and>
      bc' = bc\<lparr>chain_bc := chain_bc bc @
                 [\<lparr>timestamp = now, nonce = n, previousHash = Hash L h' lb,
                   transactions = append_slice (transactionPool bc) t\<rparr>],
               transactionPool := Slice []\<rparr>"
proof -
  obtain t h1 where nt: "NewTransaction h MiningSender (blockchainAddress bc) MiningReward = (t, h1)"
    by (cases "NewTransaction h MiningSender (blockchainAddress bc) MiningReward") auto
  let ?bc1 = "bc\<lparr>transactionPool := append_slice (transactionPool bc) t\<rparr>"
  have a: "AddTransaction L h bc MiningSender (blockchainAddress bc) MiningReward None None
        = Inr (True, h1, ?bc1)"
    unfolding AddTransaction_cases [OF nt] by simp
  from assms a obtain n where pw: "ProofOfWork L h1 ?bc1 = Some (Inr (n, h'))"
    by (auto simp add: Mining_def split: option.splits sum.splits prod.splits)
  have lbeq: "LastBlock ?bc1 = LastBlock bc" by (simp add: LastBlock_def)
  from assms a pw obtain lb where lb: "LastBlock bc = Inr lb"
    by (cases "LastBlock bc") (auto simp add: Mining_def lbeq)
  from assms a pw lb lbeq
  have "bc' = snd (CreateBlock now ?bc1 n (Hash L h' lb))"
    by (simp add: Mining_def split_beta)
  then have "bc' = bc\<lparr>chain_bc := chain_bc bc @
                 [\<lparr>timestamp = now, nonce = n, previousHash = Hash L h' lb,
                   transactions = append_slice (transactionPool bc) t\<rparr>],
               transactionPool := Slice []\<rparr>"
    by (simp add: CreateBlock_def NewBlock_def Let_def)
  then show ?thesis using nt a pw lb by blast
qed

lemma Mining_invariant:
  assumes m: "Mining L now h bc = Some (Inr (ok, h', bc'))"
    and wf: "wf_state h bc" and ne: "chain_bc bc \<noteq> []"
    and li: "linked L h (chain_bc bc)" and se: "sealed L h (chain_bc bc)"
  shows "wf_state h' bc' \<and> chain_bc bc' \<noteq> [] \<and>
         linked L h' (chain_bc bc') \<and> sealed L h' (chain_bc bc')"
proof -
  from Mining_result [OF m] obtain t h1 n lb where
    nt: "NewTransaction h MiningSender (blockchainAddress bc) MiningReward = (t, h1)"
    and a: "AddTransaction L h bc MiningSender (blockchainAddress bc) MiningReward None None
        = Inr (True, h1, bc\<lparr>transactionPool := append_slice (transactionPool bc) t\<rparr>)"
    and pw: "ProofOfWork L h1 (bc\<lparr>transactionPool := append_slice (transactionPool bc) t\<rparr>)
        = Some (Inr (n, h'))"
    and lb: "LastBlock bc = Inr lb"
    and bc': "bc' = bc\<lparr>chain_bc := chain_bc bc @
                 [\<lparr>timestamp = now, nonce = n, previousHash = Hash L h' lb,
                   transactions = append_slice (transactionPool bc) t\<rparr>],
               transactionPool := Slice []\<rparr>"
    by blast
  let ?bc1 = "bc\<lparr>transactionPool := append_slice (transactionPool bc) t\<rparr>"
  let ?ps = "elems (transactionPool bc) @ [t]"
  let ?b = "\<lparr>timestamp = now, nonce = n, previousHash = Hash L h' lb,
             transactions = append_slice (transactionPool bc) t\<rparr>"
  from AddTransaction_wf [OF wf a]
  have wf1: "wf_state h1 ?bc1" and ext01: "heap_extends h h1" by simp_all
  have al1: "allocated h1 (elems (transactionPool ?bc1))"
    using wf1 by (simp add: wf_state_def)
  from ProofOfWork_result [OF pw] obtain ts lb' where
    cp: "CopyTransactionPool h1 ?bc1 = (ts, h')"
    and lb': "LastBlock ?bc1 = Inr lb'"
    and valid: "ValidProof L h' n (Hash L h' lb') ts MiningDifficulty = Inr True"
    by blast
  have "lb' = lb" using lb lb' by (simp add: LastBlock_def split: if_splits)
  note sp = CopyTransactionPool_spec [OF cp al1]
  have ext1: "heap_extends h1 h'" by (rule sp(1))
  have ext: "heap_extends h h'" using ext01 ext1 by (rule heap_extends_trans)
  have lblast: "lb = last (chain_bc bc)"
    using lb LastBlock_last [OF ne] by simp
  \<comment> \<open>the copy and the pool encode alike\<close>
  obtain qs where ts: "ts = Slice qs" using sp(2) by blast
  have "map (objs h') qs = map (objs h1) ?ps"
    using sp(4) ts by (simp add: pool_contents_def append_slice_def)
  also have "\<dots> = map (objs h') ?ps"
    using map_objs_extends [OF ext1, of ?ps] al1 by (simp add: append_slice_def)
  finally have "transactions_json h' ts = transactions_json h' (append_slice (transactionPool bc) t)"
    using ts by (simp add: append_slice_def transactions_json_cong)
  from ValidProof_json_cong [OF this, of L n "Hash L h' lb" MiningDifficulty]
  have vb: "ValidProof L h' (nonce ?b) (previousHash ?b) (transactions ?b) MiningDifficulty = Inr True"
    using valid \<open>lb' = lb\<close> by simp
  have alc: "\<forall>b \<in> set (chain_bc bc). allocated h (elems (transactions b))"
    using wf by (simp add: wf_state_def)
  have li': "linked L h' (chain_bc bc)" using ext alc li by (rule linked_extends)
  have se': "sealed L h' (chain_bc bc)" using ext alc se by (rule sealed_extends)
  have l2: "linked L h' (chain_bc bc @ [?b])"
    using ne li' by (rule linked_snoc) (simp add: lblast)
  have s2: "sealed L h' (chain_bc bc @ [?b])"
    using ne se' vb by (rule sealed_snoc)
  have "allocated h' ?ps"
    using allocated_extends [OF ext1 al1] by (simp add: append_slice_def)
  moreover have "\<forall>b \<in> set (chain_bc bc). allocated h' (elems (transactions b))"
    using alc ext by (auto intro: allocated_extends)
  ultimately have w2: "wf_state h' bc'"
    by (simp add: bc' wf_state_def append_slice_def allocated_def)
  show ?thesis using w2 l2 s2 by (simp add: bc')
qed

lemma reachable_invariant:
  "reachable L h bc \<Longrightarrow>
     wf_state h bc \<and> chain_bc bc \<noteq> [] \<and>
     linked L h (chain_bc bc) \<and> sealed L h (chain_bc bc)"
proof (induction rule: reachable.induct)
  case (reach_new h now address p)
  show ?case
    by (simp add: NewBlockchain_def zero_Blockchain_def CreateBlock_def NewBlock_def Let_def
          wf_state_def allocated_def linked_def sealed_def)
next
  case (reach_add h bc sender recipient v pk s ok h' bc')
  then have wf: "wf_state h bc" and ne: "chain_bc bc \<noteq> []"
    and li: "linked L h (chain_bc bc)" and se: "sealed L h (chain_bc bc)" by simp_all
  from AddTransaction_wf [OF wf reach_add.hyps(2)]
  have wf': "wf_state h' bc'" and ext: "heap_extends h h'" and ch: "chain_bc bc' = chain_bc bc"
    by simp_all
  have alc: "\<forall>b \<in> set (chain_bc bc). allocated h (elems (transactions b))"
    using wf by (simp add: wf_state_def)
  show ?case
    using wf' ne linked_extends [OF ext alc li] sealed_extends [OF ext alc se]
    by (simp add: ch)
next
  case (reach_mine h bc now ok h' bc')
  then show ?case using Mining_invariant by blast
qed

text \<open>
  Claim C1. In every ledger reachable from \<^verbatim>\<open>NewBlockchain\<close> by calls of
  \<^verbatim>\<open>AddTransaction\<close> and \<^verbatim>\<open>Mining\<close>, each block but the first carries the hash of the
  block before it.
\<close>

theorem chain_integrity:
  assumes "reachable L h bc" and "1 \<le> i" and "i < length (chain_bc bc)"
  shows "previousHash (chain_bc bc ! i) = Hash L h (chain_bc bc ! (i - 1))"
  using reachable_invariant [OF assms(1)] assms(2,3) unfolding linked_def by blast

text \<open>
  Claim C2. In every reachable ledger, each block but the first, that is each block
  appended by \<^verbatim>\<open>Mining\<close>, satisfies \<^verbatim>\<open>ValidProof\<close> with its own nonce, previous hash and
  transactions at the mining difficulty: the hash of the block with its timestamp set
  to 0 starts with three \<open>0\<close> digits. The block holds the transactions of the pool,
  while the nonce was searched over their copy.
\<close>

theorem mined_block_valid:
  assumes "reachable L h bc" and "1 \<le> i" and "i < length (chain_bc bc)"
  shows "ValidProof L h (nonce (chain_bc bc ! i)) (previousHash (chain_bc bc ! i))
           (transactions (chain_bc bc ! i)) MiningDifficulty = Inr True \<and>
         take 3 (hex256 (Hash L h
           \<lparr>timestamp = 0, nonce = nonce (chain_bc bc ! i),
            previousHash = previousHash (chain_bc bc ! i),
            transactions = transactions (chain_bc bc ! i)\<rparr>)) = ''000''"
proof -
  have "ValidProof L h (nonce (chain_bc bc ! i)) (previousHash (chain_bc bc ! i))
           (transactions (chain_bc bc ! i)) MiningDifficulty = Inr True"
    using reachable_invariant [OF assms(1)] assms(2,3) unfolding sealed_def by blast
  then show ?thesis by (simp add: ValidProof_MiningDifficulty)
qed

section \<open>Balances\<close>

lemma total_step_exact:
  assumes "a = recipientBlockchainAddress t \<or> a = senderBlockchainAddress t
             \<longrightarrow> is_finite (value_tx t)"
    and "exact_run acc (tx_deltas a t @ ds)"
  shows "total_step a (Val acc) t = Val (acc + sum_list (tx_deltas a t)) \<and>
         exact_run (acc + sum_list (tx_deltas a t)) ds"
proof (cases "a = recipientBlockchainAddress t \<or> a = senderBlockchainAddress t")
  case False
  then show ?thesis using assms(2) by (simp add: total_step_def tx_deltas_def Let_def)
next
  case involved: True
  then have "is_finite (value_tx t)" using assms(1) by simp
  then consider (neg_zero) "value_tx t = NZero" | (val) k where "value_tx t = Val k"
    by (cases "value_tx t") auto
  then show ?thesis
  proof cases
    case neg_zero
    then show ?thesis
      using assms(2) involved
      by (auto simp add: total_step_def tx_deltas_def Let_def fsub_def)
  next
    case k: val
    show ?thesis
    proof (cases "k = 0")
      case True
      then show ?thesis
        using assms(2) k involved
        by (auto simp add: total_step_def tx_deltas_def Let_def fsub_def)
    next
      case False
      then show ?thesis
        using assms(2) k involved
        by (auto simp add: total_step_def tx_deltas_def Let_def fsub_def)
    qed
  qed
qed

lemma scan_exact:
  "finite_values a ts \<Longrightarrow> exact_run acc (deltas a ts) \<Longrightarrow>
     foldl (total_step a) (Val acc) ts = Val (acc + sum_list (deltas a ts))"
proof (induction ts arbitrary: acc)
  case Nil
  then show ?case by (simp add: deltas_def)
next
  case (Cons t ts)
  from Cons.prems(1) have f: "a = recipientBlockchainAddress t \<or> a = senderBlockchainAddress t
             \<longrightarrow> is_finite (value_tx t)" and fs: "finite_values a ts"
    by (simp_all add: finite_values_def)
  from Cons.prems(2) have "exact_run acc (tx_deltas a t @ deltas a ts)"
    by (simp add: deltas_def)
  from total_step_exact [OF f this]
  have st: "total_step a (Val acc) t = Val (acc + sum_list (tx_deltas a t))"
    and ex: "exact_run (acc + sum_list (tx_deltas a t)) (deltas a ts)" by simp_all
  from Cons.IH [OF fs ex] st show ?case by (simp add: deltas_def add.assoc)
qed

lemma sum_deltas:
  "sum_list (deltas a ts) =
     sum_list (map (\<lambda>t. units (value_tx t)) (filter (\<lambda>t. recipientBlockchainAddress t = a) ts))
     - sum_list (map (\<lambda>t. units (value_tx t)) (filter (\<lambda>t. senderBlockchainAddress t = a) ts))"
  by (induction ts) (auto simp add: deltas_def tx_deltas_def)

text \<open>
  Claim C6, as amended. When every value in the chain that is credited to or debited
  from the address is finite (\<open>-0\<close> included) and no step of the running total is
  rounded (each partial sum of the scan, the credit of a transaction taken before its
  debit, is a \<open>float32\<close>), \<^verbatim>\<open>CalculateTotalAmount\<close> is the sum of the values received
  minus the sum of the values sent, over all transactions of all blocks of the chain.
\<close>

theorem CalculateTotalAmount_exact:
  assumes "finite_values a (chain_transactions h bc)"
    and "exact_run 0 (deltas a (chain_transactions h bc))"
  shows "CalculateTotalAmount h bc a = Val (received_units h bc a - sent_units h bc a)"
  using scan_exact [OF assms]
  by (simp add: CalculateTotalAmount_scan sum_deltas received_units_def sent_units_def)

section \<open>Evaluation on the concrete ledgers\<close>

lemma take3: "3 \<le> length xs \<Longrightarrow> take 3 xs = [xs ! 0, xs ! 1, xs ! 2]"
  by (cases xs; cases "tl xs"; cases "tl (tl xs)") (auto simp add: numeral_3_eq_3)

lemma hex256_nth:
  "i < 64 \<Longrightarrow> hex256 w ! i = hexdigit (unat (take_bit 4 (drop_bit (4 * (63 - i)) w)))"
  by (simp add: hex256_def)

lemma hex256_zero: "take 3 (hex256 0) = ''000''"
  by (simp add: take3 length_hex256 hex256_nth hexdigit_def)

lemma hex256_top: "take 3 (hex256 top_bit) \<noteq> ''000''"
proof -
  have "drop_bit 252 top_bit = 8"
    by (simp add: top_bit_def drop_bit_eq_div)
  then show ?thesis
    by (simp add: take3 length_hex256 hex256_nth hexdigit_def)
qed

lemma byte_mod4: "(of_nat (k mod 4) :: 8 word) = 3 \<longleftrightarrow> k mod 4 = 3"
proof -
  have "k mod 4 = 0 \<or> k mod 4 = 1 \<or> k mod 4 = 2 \<or> k mod 4 = 3" by arith
  then show ?thesis by auto
qed

lemma demo_Hash:
  "Hash demo_lib h b =
     (if (nat (sint (nonce b)) + length (elems (transactions b))) mod 4 = 3
      then 0 else top_bit)"
  by (cases "transactions b")
     (simp_all add: Hash_def Block_MarshalJSON_def transactions_json_def
        marshal_ignoring_error_def demo_lib_def demo_Marshal_def demo_Sum256_def byte_mod4)

lemma demo_ValidProof:
  "ValidProof demo_lib h n prev ts MiningDifficulty =
     Inr ((nat (sint n) + length (elems ts)) mod 4 = 3)"
  by (simp add: ValidProof_MiningDifficulty demo_Hash hex256_zero hex256_top)

lemma demo_genesis_eq:
  "demo_genesis =
     \<lparr>transactionPool = Slice [],
      chain_bc = [\<lparr>timestamp = 1, nonce = 0, previousHash = top_bit, transactions = NilSlice\<rparr>],
      blockchainAddress = ''A'', port = 5000\<rparr>"
  by (simp add: demo_genesis_def NewBlockchain_def zero_Blockchain_def CreateBlock_def
        NewBlock_def Let_def demo_Hash zero_Block_def)


lemma reward_added:
  "AddTransaction demo_lib heap0 demo_genesis MiningSender ''A'' MiningReward None None
     = Inr (True, heap_r, demo_rewarded)"
  by (simp add: AddTransaction_def NewTransaction_def heap_r_def demo_rewarded_def
        heap0_def tx_def append_slice_def demo_genesis_eq)

lemma demo_copy: "CopyTransactionPool heap_r demo_rewarded = (Slice [3], heap1)"
  by (simp add: CopyTransactionPool_def demo_rewarded_def NewTransaction_def heap_r_def
        heap1_def tx_def demo_genesis_eq Let_def)

lemma demo_last: "LastBlock demo_rewarded =
    Inr \<lparr>timestamp = 1, nonce = 0, previousHash = top_bit, transactions = NilSlice\<rparr>"
  by (simp add: LastBlock_def demo_rewarded_def demo_genesis_eq)

lemma demo_solvable: "solvable demo_lib heap_r demo_rewarded"
proof -
  have "0 \<le> sint (2 :: 64 word)" by simp
  moreover have "ValidProof demo_lib heap1 2 prev (Slice [3]) MiningDifficulty = Inr True"
    for prev
    by (simp add: demo_ValidProof)
  ultimately have "\<exists>m. 0 \<le> sint m \<and>
      ValidProof demo_lib heap1 m prev (Slice [3]) MiningDifficulty = Inr True" for prev
    by blast
  then show ?thesis
    unfolding solvable_def demo_last demo_copy by simp
qed

lemma demo_loop: "ProofOfWork_loop demo_lib heap1 prev (Slice [3]) 0 = Some (Inr 2)"
proof (rule ProofOfWork_loop_finds)
  show "ValidProof demo_lib heap1 2 prev (Slice [3]) MiningDifficulty = Inr True"
    by (simp add: demo_ValidProof)
  show "\<forall>k. 0 \<le> k \<and> k < 2 \<longrightarrow>
          ValidProof demo_lib heap1 k prev (Slice [3]) MiningDifficulty = Inr False"
  proof (intro allI impI)
    fix k :: "64 word"
    assume "0 \<le> k \<and> k < 2"
    then have "k = 0 \<or> k = 1" by unat_arith
    then show "ValidProof demo_lib heap1 k prev (Slice [3]) MiningDifficulty = Inr False"
      by (auto simp add: demo_ValidProof)
  qed
  show "(0 :: 64 word) \<le> 2" by simp
qed

lemma demo_ProofOfWork: "ProofOfWork demo_lib heap_r demo_rewarded = Some (Inr (2, heap1))"
  by (simp add: ProofOfWork_def demo_copy demo_last demo_loop)

lemma demo_Mining: "Mining demo_lib 2 heap0 demo_genesis = Some (Inr (True, heap1, demo_mined))"
proof -
  have "blockchainAddress demo_genesis = ''A''"
    by (simp add: demo_genesis_eq)
  then have a: "AddTransaction demo_lib heap0 demo_genesis MiningSender
      (blockchainAddress demo_genesis) MiningReward None None = Inr (True, heap_r, demo_rewarded)"
    using reward_added by simp
  have "snd (CreateBlock 2 demo_rewarded 2 top_bit) = demo_mined"
    by (simp add: CreateBlock_def NewBlock_def Let_def demo_mined_def demo_rewarded_def)
  then show ?thesis
    using Mining_unfold [OF a demo_ProofOfWork demo_last, of 2]
    by (simp add: demo_Hash)
qed

lemma reachable_demo_genesis: "reachable demo_lib heap0 demo_genesis"
  unfolding demo_genesis_def by (rule reach_new)

lemma reachable_demo_mined: "reachable demo_lib heap1 demo_mined"
  using reachable_demo_genesis demo_Mining by (rule reach_mine)

section \<open>The properties on the concrete ledgers\<close>

lemma wf_demo_genesis: "wf_state heap0 demo_genesis"
  by (simp add: wf_state_def allocated_def demo_genesis_eq)

lemma wf_demo_mined: "wf_state heap1 demo_mined"
  by (simp add: wf_state_def allocated_def demo_mined_def demo_genesis_eq heap1_def)

lemma f32_round_one: "f32_round one_units = Val one_units"
  by code_simp

theorem CreateBlock_clears_pool_witness:
  "CreateBlock 2 demo_rewarded 2 top_bit =
     (\<lparr>timestamp = 2, nonce = 2, previousHash = top_bit, transactions = Slice [2]\<rparr>, demo_mined) \<and>
   elems (transactionPool demo_mined) = [] \<and>
   block_contents heap1
     \<lparr>timestamp = 2, nonce = 2, previousHash = top_bit, transactions = Slice [2]\<rparr>
     = [tx MiningSender ''A'' MiningReward] \<and>
   pool_contents heap1 demo_rewarded = [tx MiningSender ''A'' MiningReward]"
proof -
  have c: "CreateBlock 2 demo_rewarded 2 top_bit =
     (\<lparr>timestamp = 2, nonce = 2, previousHash = top_bit, transactions = Slice [2]\<rparr>, demo_mined)"
    by (simp add: CreateBlock_def NewBlock_def Let_def demo_mined_def demo_rewarded_def)
  have p: "pool_contents heap1 demo_rewarded = [tx MiningSender ''A'' MiningReward]"
    by (simp add: pool_contents_def demo_rewarded_def heap1_def)
  note r = CreateBlock_clears_pool [OF c, of heap1]
  from r have e: "elems (transactionPool demo_mined) = []" by blast
  from r have b: "block_contents heap1
      \<lparr>timestamp = 2, nonce = 2, previousHash = top_bit, transactions = Slice [2]\<rparr>
      = pool_contents heap1 demo_rewarded" by blast
  show ?thesis by (simp only: c e b p)
qed

theorem AddTransaction_signature_gate_witness:
  "wf_state heap0 demo_genesis \<and>
   (\<exists>h' bc'. AddTransaction demo_lib heap0 demo_genesis MiningSender ''A'' MiningReward None None
        = Inr (True, h', bc') \<and>
      pool_contents h' bc' = pool_contents heap0 demo_genesis @ [tx MiningSender ''A'' MiningReward]) \<and>
   (\<exists>h' bc'. AddTransaction demo_lib heap0 demo_genesis ''A'' ''B'' MiningReward (Some 7)
        (Some \<lparr>sigR = 7, sigS = 7\<rparr>) = Inr (True, h', bc') \<and>
      pool_contents h' bc' = pool_contents heap0 demo_genesis @ [tx ''A'' ''B'' MiningReward]) \<and>
   (\<exists>h' bc'. AddTransaction demo_lib heap0 demo_genesis ''A'' ''B'' MiningReward (Some 7)
        (Some \<lparr>sigR = 7, sigS = 8\<rparr>) = Inr (False, h', bc') \<and>
      transactionPool bc' = transactionPool demo_genesis \<and>
      pool_contents h' bc' = pool_contents heap0 demo_genesis)"
proof -
  have ns: "''A'' \<noteq> MiningSender" by (simp add: MiningSender_def)
  note g = AddTransaction_signature_gate [OF wf_demo_genesis, where L = demo_lib]
  have m: "\<exists>h' bc'. AddTransaction demo_lib heap0 demo_genesis MiningSender ''A'' MiningReward
        None None = Inr (True, h', bc') \<and>
      pool_contents h' bc' = pool_contents heap0 demo_genesis @ [tx MiningSender ''A'' MiningReward]"
    using g [of MiningSender "''A''" MiningReward None None] by simp
  have a: "\<exists>h' bc'. AddTransaction demo_lib heap0 demo_genesis ''A'' ''B'' MiningReward (Some 7)
        (Some \<lparr>sigR = 7, sigS = 7\<rparr>) = Inr (True, h', bc') \<and>
      pool_contents h' bc' = pool_contents heap0 demo_genesis @ [tx ''A'' ''B'' MiningReward]"
    using ns g [of "''A''" "''B''" MiningReward "Some 7" "Some \<lparr>sigR = 7, sigS = 7\<rparr>"]
    by (simp add: demo_lib_def demo_Verify_def Let_def)
  have r: "\<exists>h' bc'. AddTransaction demo_lib heap0 demo_genesis ''A'' ''B'' MiningReward (Some 7)
        (Some \<lparr>sigR = 7, sigS = 8\<rparr>) = Inr (False, h', bc') \<and>
      transactionPool bc' = transactionPool demo_genesis \<and>
      pool_contents h' bc' = pool_contents heap0 demo_genesis"
    using ns g [of "''A''" "''B''" MiningReward "Some 7" "Some \<lparr>sigR = 7, sigS = 8\<rparr>"]
    by (simp add: demo_lib_def demo_Verify_def Let_def) blast
  show ?thesis using wf_demo_genesis m a r by blast
qed

theorem VerifyTransactionSignature_nil_counterexample:
  "VerifyTransactionSignature demo_lib heap1 (Some 7) None 2 = Inl NilDereference \<and>
   AddTransaction demo_lib heap0 demo_genesis ''A'' ''B'' MiningReward (Some 7) None
     = Inl NilDereference"
  by (simp add: VerifyTransactionSignature_def AddTransaction_def NewTransaction_def
        MiningSender_def Let_def)

theorem AddTransaction_returns_iff_witness:
  "''A'' \<noteq> MiningSender \<and>
   AddTransaction demo_lib heap0 demo_genesis ''A'' ''B'' MiningReward (Some 7) None
     = Inl NilDereference \<and>
   (\<exists>res. AddTransaction demo_lib heap0 demo_genesis ''A'' ''B'' MiningReward (Some 7)
      (Some \<lparr>sigR = 7, sigS = 8\<rparr>) = Inr res)"
proof -
  have ns: "''A'' \<noteq> MiningSender" by (simp add: MiningSender_def)
  show ?thesis
    using ns
      AddTransaction_returns_iff [OF ns,
        of demo_lib heap0 demo_genesis "''B''" MiningReward "Some 7" "Some \<lparr>sigR = 7, sigS = 8\<rparr>"]
    by (simp add: demo_lib_def demo_Verify_def)
qed

theorem AddTransaction_frame_witness:
  "wf_state heap1 demo_mined \<and>
   AddTransaction demo_lib heap1 demo_mined ''A'' ''B'' MiningReward (Some 7)
     (Some \<lparr>sigR = 7, sigS = 7\<rparr>)
     = Inr (True, heap1\<lparr>objs := (objs heap1)(4 := tx ''A'' ''B'' MiningReward), next_free := 5\<rparr>,
            demo_mined\<lparr>transactionPool := Slice [4]\<rparr>) \<and>
   chain_bc (demo_mined\<lparr>transactionPool := Slice [4]\<rparr>) = chain_bc demo_mined \<and>
   CalculateTotalAmount
     (heap1\<lparr>objs := (objs heap1)(4 := tx ''A'' ''B'' MiningReward), next_free := 5\<rparr>)
     (demo_mined\<lparr>transactionPool := Slice [4]\<rparr>) ''A''
     = CalculateTotalAmount heap1 demo_mined ''A'' \<and>
   CalculateTotalAmount heap1 demo_mined ''A'' = MiningReward"
proof -
  have a: "AddTransaction demo_lib heap1 demo_mined ''A'' ''B'' MiningReward (Some 7)
     (Some \<lparr>sigR = 7, sigS = 7\<rparr>)
     = Inr (True, heap1\<lparr>objs := (objs heap1)(4 := tx ''A'' ''B'' MiningReward), next_free := 5\<rparr>,
            demo_mined\<lparr>transactionPool := Slice [4]\<rparr>)"
    by (simp add: AddTransaction_def NewTransaction_def VerifyTransactionSignature_def
          MiningSender_def Let_def demo_lib_def demo_Verify_def heap1_def tx_def
          append_slice_def demo_mined_def)
  have c: "CalculateTotalAmount heap1 demo_mined ''A'' = MiningReward"
    by (simp add: CalculateTotalAmount_def demo_mined_def demo_genesis_eq heap1_def tx_def
          total_step_def Let_def MiningSender_def MiningReward_def f32_round_one)
  show ?thesis
    using wf_demo_mined a c AddTransaction_frame [OF wf_demo_mined a, of "''A''"] by simp
qed

theorem ProofOfWork_least_nonce_witness:
  "solvable demo_lib heap_r demo_rewarded \<and>
   ProofOfWork demo_lib heap_r demo_rewarded = Some (Inr (2, heap1)) \<and>
   (\<exists>n lb ts h1.
      ProofOfWork demo_lib heap_r demo_rewarded = Some (Inr (n, h1)) \<and>
      LastBlock demo_rewarded = Inr lb \<and> CopyTransactionPool heap_r demo_rewarded = (ts, h1) \<and>
      0 \<le> sint n \<and>
      ValidProof demo_lib h1 n (Hash demo_lib h1 lb) ts MiningDifficulty = Inr True \<and>
      take 3 (hex256 (Hash demo_lib h1
        \<lparr>timestamp = 0, nonce = n, previousHash = Hash demo_lib h1 lb, transactions = ts\<rparr>))
        = ''000'' \<and>
      (\<forall>m. 0 \<le> sint m \<and> sint m < sint n \<longrightarrow>
           ValidProof demo_lib h1 m (Hash demo_lib h1 lb) ts MiningDifficulty = Inr False)) \<and>
   (\<exists>lb ts.
      LastBlock demo_rewarded = Inr lb \<and> CopyTransactionPool heap_r demo_rewarded = (ts, heap1) \<and>
      ValidProof demo_lib heap1 2 (Hash demo_lib heap1 lb) ts MiningDifficulty = Inr True \<and>
      (\<forall>m. m < 2 \<longrightarrow>
           ValidProof demo_lib heap1 m (Hash demo_lib heap1 lb) ts MiningDifficulty = Inr False))"
  using demo_solvable demo_ProofOfWork
    ProofOfWork_least_nonce [of demo_lib heap_r demo_rewarded]
  by blast

theorem Mining_terminates_witness:
  "solvable demo_lib heap_r demo_rewarded \<and>
   AddTransaction demo_lib heap0 demo_genesis MiningSender (blockchainAddress demo_genesis)
     MiningReward None None = Inr (True, heap_r, demo_rewarded) \<and>
   (\<exists>n h1. ProofOfWork demo_lib heap_r demo_rewarded = Some (Inr (n, h1))) \<and>
   (\<exists>h2 bc2. Mining demo_lib 2 heap0 demo_genesis = Some (Inr (True, h2, bc2)) \<and>
      length (chain_bc bc2) = Suc (length (chain_bc demo_rewarded)))"
proof -
  have a: "AddTransaction demo_lib heap0 demo_genesis MiningSender (blockchainAddress demo_genesis)
     MiningReward None None = Inr (True, heap_r, demo_rewarded)"
    using reward_added by (simp add: demo_genesis_eq)
  show ?thesis
    using demo_solvable a
      Mining_terminates [of demo_lib heap_r demo_rewarded 2]
      Mining_terminates [of demo_lib heap0 demo_genesis 2]
    by blast
qed

section \<open>Chain properties on the concrete ledgers\<close>

lemma wf_demo_rewarded: "wf_state heap_r demo_rewarded"
  by (simp add: wf_state_def allocated_def demo_rewarded_def demo_genesis_eq heap_r_def)

lemma demo_mined_chain:
  "chain_bc demo_mined =
     [\<lparr>timestamp = 1, nonce = 0, previousHash = top_bit, transactions = NilSlice\<rparr>,
      \<lparr>timestamp = 2, nonce = 2, previousHash = top_bit, transactions = Slice [2]\<rparr>]"
  by (simp add: demo_mined_def demo_genesis_eq)

theorem chain_integrity_witness:
  "reachable demo_lib heap1 demo_mined \<and> (1::nat) \<le> 1 \<and> 1 < length (chain_bc demo_mined) \<and>
   previousHash (chain_bc demo_mined ! 1) = Hash demo_lib heap1 (chain_bc demo_mined ! (1 - 1)) \<and>
   Hash demo_lib heap1 (chain_bc demo_mined ! 0) = top_bit"
proof -
  have l: "1 < length (chain_bc demo_mined)" by (simp add: demo_mined_chain)
  have h: "Hash demo_lib heap1 (chain_bc demo_mined ! 0) = top_bit"
    by (simp add: demo_mined_chain demo_Hash)
  show ?thesis
    using reachable_demo_mined l h chain_integrity [OF reachable_demo_mined _ l, of ] by simp
qed

theorem mined_block_valid_witness:
  "reachable demo_lib heap1 demo_mined \<and> (1::nat) \<le> 1 \<and> 1 < length (chain_bc demo_mined) \<and>
   chain_bc demo_mined ! 1 =
     \<lparr>timestamp = 2, nonce = 2, previousHash = top_bit, transactions = Slice [2]\<rparr> \<and>
   ValidProof demo_lib heap1 2 top_bit (Slice [2]) MiningDifficulty = Inr True \<and>
   take 3 (hex256 (Hash demo_lib heap1
     \<lparr>timestamp = 0, nonce = 2, previousHash = top_bit, transactions = Slice [2]\<rparr>)) = ''000''"
proof -
  have l: "1 < length (chain_bc demo_mined)" by (simp add: demo_mined_chain)
  have b: "chain_bc demo_mined ! 1 =
     \<lparr>timestamp = 2, nonce = 2, previousHash = top_bit, transactions = Slice [2]\<rparr>"
    by (simp add: demo_mined_chain)
  show ?thesis
    using reachable_demo_mined l b mined_block_valid [OF reachable_demo_mined _ l] by simp
qed

theorem ProofOfWork_read_only_witness:
  "wf_state heap_r demo_rewarded \<and>
   ProofOfWork demo_lib heap_r demo_rewarded = Some (Inr (2, heap1)) \<and>
   pool_contents heap1 demo_rewarded = pool_contents heap_r demo_rewarded \<and>
   pool_contents heap_r demo_rewarded = [tx MiningSender ''A'' MiningReward] \<and>
   chain_transactions heap1 demo_rewarded = chain_transactions heap_r demo_rewarded \<and>
   (\<exists>qs. CopyTransactionPool heap_r demo_rewarded = (Slice qs, heap1) \<and>
         length qs = length (elems (transactionPool demo_rewarded)) \<and>
         map (objs heap1) qs = pool_contents heap_r demo_rewarded \<and>
         distinct qs \<and>
         set qs \<inter> set (elems (transactionPool demo_rewarded)) = {} \<and>
         (\<forall>q \<in> set qs. next_free heap_r \<le> q \<and> q < next_free heap1))"
proof -
  have p: "pool_contents heap_r demo_rewarded = [tx MiningSender ''A'' MiningReward]"
    by (simp add: pool_contents_def demo_rewarded_def heap_r_def)
  show ?thesis
    using wf_demo_rewarded demo_ProofOfWork p
      ProofOfWork_read_only [OF wf_demo_rewarded demo_ProofOfWork]
    by simp
qed

section \<open>Balances on the concrete ledgers\<close>

lemma f32_round_big: "f32_round big_units = Val big_units"
  by code_simp

lemma f32_round_big_one: "f32_round (big_units + one_units) = Val big_units"
  by code_simp

lemma f32_round_zero: "f32_round 0 = Val 0"
  by code_simp

lemma units_nonzero: "big_units \<noteq> 0" "one_units \<noteq> 0" "one_units \<noteq> 2 * one_units"
  by (simp_all add: big_units_def one_units_def)

lemma reachable_demo_pending: "reachable demo_lib heap_c demo_pending"
proof -
  let ?ha = "\<lparr>objs = (objs heap0)(2 := tx MiningSender ''A'' (Val big_units)), next_free = 3\<rparr>"
  let ?ba = "demo_genesis\<lparr>transactionPool := Slice [2]\<rparr>"
  let ?hb = "\<lparr>objs = (objs heap0)(2 := tx MiningSender ''A'' (Val big_units),
                 3 := tx MiningSender ''A'' (Val one_units)), next_free = 4\<rparr>"
  let ?bb = "demo_genesis\<lparr>transactionPool := Slice [2, 3]\<rparr>"
  have a: "AddTransaction demo_lib heap0 demo_genesis MiningSender ''A'' (Val big_units) None None
             = Inr (True, ?ha, ?ba)"
    by (simp add: AddTransaction_def NewTransaction_def heap0_def tx_def append_slice_def
          demo_genesis_eq)
  have b: "AddTransaction demo_lib ?ha ?ba MiningSender ''A'' (Val one_units) None None
             = Inr (True, ?hb, ?bb)"
    by (simp add: AddTransaction_def NewTransaction_def heap0_def tx_def append_slice_def
          demo_genesis_eq)
  have c: "AddTransaction demo_lib ?hb ?bb ''A'' ''B'' (Val big_units) (Some 7)
             (Some \<lparr>sigR = 7, sigS = 7\<rparr>) = Inr (True, heap_c, demo_pending)"
    by (simp add: AddTransaction_def NewTransaction_def VerifyTransactionSignature_def
          MiningSender_def Let_def demo_lib_def demo_Verify_def heap0_def heap_c_def tx_def
          append_slice_def demo_pending_def demo_genesis_eq)
  from reachable_demo_genesis a have "reachable demo_lib ?ha ?ba" by (rule reach_add)
  from this b have "reachable demo_lib ?hb ?bb" by (rule reach_add)
  from this c show ?thesis by (rule reach_add)
qed

lemma pending_reward_added:
  "AddTransaction demo_lib heap_c demo_pending MiningSender (blockchainAddress demo_pending)
     MiningReward None None = Inr (True, heap_d, demo_pending_rewarded)"
  by (simp add: AddTransaction_def NewTransaction_def heap_c_def heap_d_def tx_def
        append_slice_def demo_pending_def demo_pending_rewarded_def demo_genesis_eq)

lemma pending_copy:
  "CopyTransactionPool heap_d demo_pending_rewarded = (Slice [6, 7, 8, 9], heap2)"
  by (simp add: CopyTransactionPool_def demo_pending_rewarded_def NewTransaction_def
        heap_c_def heap_d_def heap2_def tx_def demo_genesis_eq Let_def MiningReward_def)

lemma pending_last: "LastBlock demo_pending_rewarded =
    Inr \<lparr>timestamp = 1, nonce = 0, previousHash = top_bit, transactions = NilSlice\<rparr>"
  by (simp add: LastBlock_def demo_pending_rewarded_def demo_genesis_eq)

lemma pending_loop:
  "ProofOfWork_loop demo_lib heap2 prev (Slice [6, 7, 8, 9]) 0 = Some (Inr 3)"
proof (rule ProofOfWork_loop_finds)
  show "ValidProof demo_lib heap2 3 prev (Slice [6, 7, 8, 9]) MiningDifficulty = Inr True"
    by (simp add: demo_ValidProof)
  show "\<forall>k. 0 \<le> k \<and> k < 3 \<longrightarrow>
          ValidProof demo_lib heap2 k prev (Slice [6, 7, 8, 9]) MiningDifficulty = Inr False"
  proof (intro allI impI)
    fix k :: "64 word"
    assume "0 \<le> k \<and> k < 3"
    then have "k = 0 \<or> k = 1 \<or> k = 2" by unat_arith
    then show "ValidProof demo_lib heap2 k prev (Slice [6, 7, 8, 9]) MiningDifficulty = Inr False"
      by (auto simp add: demo_ValidProof)
  qed
  show "(0 :: 64 word) \<le> 3" by simp
qed

lemma pending_ProofOfWork:
  "ProofOfWork demo_lib heap_d demo_pending_rewarded = Some (Inr (3, heap2))"
  by (simp add: ProofOfWork_def pending_copy pending_last pending_loop)

lemma pending_Mining:
  "Mining demo_lib 2 heap_c demo_pending = Some (Inr (True, heap2, demo_rounded))"
proof -
  have "snd (CreateBlock 2 demo_pending_rewarded 3 top_bit) = demo_rounded"
    by (simp add: CreateBlock_def NewBlock_def Let_def demo_rounded_def
          demo_pending_rewarded_def)
  then show ?thesis
    using Mining_unfold [OF pending_reward_added pending_ProofOfWork pending_last, of 2]
    by (simp add: demo_Hash)
qed

lemma reachable_demo_rounded: "reachable demo_lib heap2 demo_rounded"
  using reachable_demo_pending pending_Mining by (rule reach_mine)

lemma demo_rounded_transactions:
  "chain_transactions heap2 demo_rounded =
     [tx MiningSender ''A'' (Val big_units), tx MiningSender ''A'' (Val one_units),
      tx ''A'' ''B'' (Val big_units), tx MiningSender ''A'' (Val one_units)]"
  by (simp add: chain_transactions_def block_contents_def demo_rounded_def demo_genesis_eq
        heap2_def heap_d_def heap_c_def MiningReward_def)

theorem CalculateTotalAmount_rounding_counterexample:
  "reachable demo_lib heap2 demo_rounded \<and>
   CalculateTotalAmount heap2 demo_rounded ''A'' = Val one_units \<and>
   received_units heap2 demo_rounded ''A'' - sent_units heap2 demo_rounded ''A'' = 2 * one_units \<and>
   fsub (received_float heap2 demo_rounded ''A'') (sent_float heap2 demo_rounded ''A'') = Val 0 \<and>
   f32_valid (Val big_units) \<and> f32_valid (Val one_units) \<and>
   CalculateTotalAmount heap2 demo_rounded ''A''
     \<noteq> Val (received_units heap2 demo_rounded ''A'' - sent_units heap2 demo_rounded ''A'') \<and>
   CalculateTotalAmount heap2 demo_rounded ''A''
     \<noteq> fsub (received_float heap2 demo_rounded ''A'') (sent_float heap2 demo_rounded ''A'')"
proof -
  have c: "CalculateTotalAmount heap2 demo_rounded ''A'' = Val one_units"
    by (simp add: CalculateTotalAmount_scan demo_rounded_transactions total_step_def tx_def
          Let_def fsub_def MiningSender_def units_nonzero f32_round_big f32_round_big_one
          f32_round_zero f32_round_one)
  have e: "received_units heap2 demo_rounded ''A'' - sent_units heap2 demo_rounded ''A''
             = 2 * one_units"
    by (simp add: received_units_def sent_units_def demo_rounded_transactions tx_def
          MiningSender_def)
  have f: "fsub (received_float heap2 demo_rounded ''A'') (sent_float heap2 demo_rounded ''A'')
             = Val 0"
    by (simp add: received_float_def sent_float_def demo_rounded_transactions tx_def
          MiningSender_def fsub_def units_nonzero f32_round_big f32_round_big_one
          f32_round_zero)
  have v: "f32_valid (Val big_units)" "f32_valid (Val one_units)"
    by (simp_all add: f32_valid_def f32_round_big f32_round_one)
  show ?thesis
    using reachable_demo_rounded units_nonzero v by (simp add: c e f)
qed

subsection \<open>A ledger with a debit\<close>

text \<open>
  The ledger \<open>demo_sent\<close> is reached from \<open>demo_mined\<close> for every value \<open>v\<close> that \<open>A\<close>
  sends to \<open>B\<close>; its chain holds a reward to \<open>A\<close>, the transfer and a second reward.
\<close>

lemma demo_mined_eq:
  "demo_mined =
     \<lparr>transactionPool = Slice [],
      chain_bc = [\<lparr>timestamp = 1, nonce = 0, previousHash = top_bit, transactions = NilSlice\<rparr>,
                  \<lparr>timestamp = 2, nonce = 2, previousHash = top_bit, transactions = Slice [2]\<rparr>],
      blockchainAddress = ''A'', port = 5000\<rparr>"
  by (simp add: demo_mined_def demo_genesis_eq)

lemma transfer_added:
  "AddTransaction demo_lib heap1 demo_mined ''A'' ''B'' v (Some 7) (Some \<lparr>sigR = 7, sigS = 7\<rparr>)
     = Inr (True, heap_s v, demo_sending)"
  by (simp add: AddTransaction_def NewTransaction_def VerifyTransactionSignature_def
        MiningSender_def Let_def demo_lib_def demo_Verify_def heap1_def heap_s_def tx_def
        append_slice_def demo_sending_def demo_mined_eq)

lemma reachable_demo_sending: "reachable demo_lib (heap_s v) demo_sending"
  using reachable_demo_mined transfer_added by (rule reach_add)

lemma sending_reward_added:
  "AddTransaction demo_lib (heap_s v) demo_sending MiningSender (blockchainAddress demo_sending)
     MiningReward None None = Inr (True, heap_t v, demo_sending_rewarded)"
  by (simp add: AddTransaction_def NewTransaction_def heap1_def heap_s_def heap_t_def tx_def
        append_slice_def demo_sending_def demo_sending_rewarded_def demo_mined_eq)

lemma sending_copy:
  "CopyTransactionPool (heap_t v) demo_sending_rewarded = (Slice [6, 7], heap3 v)"
  by (simp add: CopyTransactionPool_def demo_sending_rewarded_def NewTransaction_def
        heap1_def heap_t_def heap3_def tx_def demo_mined_eq Let_def MiningReward_def)

lemma sending_last: "LastBlock demo_sending_rewarded =
    Inr \<lparr>timestamp = 2, nonce = 2, previousHash = top_bit, transactions = Slice [2]\<rparr>"
  by (simp add: LastBlock_def demo_sending_rewarded_def demo_mined_eq)

lemma sending_loop:
  "ProofOfWork_loop demo_lib (heap3 v) prev (Slice [6, 7]) 0 = Some (Inr 1)"
proof (rule ProofOfWork_loop_finds)
  show "ValidProof demo_lib (heap3 v) 1 prev (Slice [6, 7]) MiningDifficulty = Inr True"
    by (simp add: demo_ValidProof)
  show "\<forall>k. 0 \<le> k \<and> k < 1 \<longrightarrow>
          ValidProof demo_lib (heap3 v) k prev (Slice [6, 7]) MiningDifficulty = Inr False"
  proof (intro allI impI)
    fix k :: "64 word"
    assume "0 \<le> k \<and> k < 1"
    then have "k = 0" by unat_arith
    then show "ValidProof demo_lib (heap3 v) k prev (Slice [6, 7]) MiningDifficulty = Inr False"
      by (simp add: demo_ValidProof)
  qed
  show "(0 :: 64 word) \<le> 1" by simp
qed

lemma sending_ProofOfWork:
  "ProofOfWork demo_lib (heap_t v) demo_sending_rewarded = Some (Inr (1, heap3 v))"
  by (simp add: ProofOfWork_def sending_copy sending_last sending_loop)

lemma sending_Mining:
  "Mining demo_lib 3 (heap_s v) demo_sending = Some (Inr (True, heap3 v, demo_sent))"
proof -
  have "snd (CreateBlock 3 demo_sending_rewarded 1 0) = demo_sent"
    by (simp add: CreateBlock_def NewBlock_def Let_def demo_sent_def
          demo_sending_rewarded_def)
  then show ?thesis
    using Mining_unfold [OF sending_reward_added [of v] sending_ProofOfWork [of v] sending_last, of 3]
    by (simp add: demo_Hash)
qed

lemma reachable_demo_sent: "reachable demo_lib (heap3 v) demo_sent"
  using reachable_demo_sending sending_Mining by (rule reach_mine)

lemma demo_sent_transactions:
  "chain_transactions (heap3 v) demo_sent =
     [tx MiningSender ''A'' (Val one_units), tx ''A'' ''B'' v,
      tx MiningSender ''A'' (Val one_units)]"
  by (simp add: chain_transactions_def block_contents_def demo_sent_def demo_mined_eq
        heap3_def heap1_def MiningReward_def)

text \<open>
  With \<open>v = 0.5\<close> the running total of \<open>A\<close> is \<open>1.0\<close>, \<open>0.5\<close>, \<open>1.5\<close> and no step is
  rounded: the balance of \<open>A\<close> is the two rewards minus the \<open>0.5\<close> sent, that of \<open>B\<close> is
  \<open>0.5\<close>. With \<open>v = -0\<close> the debit leaves the total as it is.
\<close>

lemma f32_round_half: "f32_round half_units = Val half_units"
  by code_simp

lemma f32_round_one_minus_half: "f32_round (one_units - half_units) = Val (one_units - half_units)"
  by code_simp

lemma f32_round_two_minus_half:
  "f32_round (2 * one_units - half_units) = Val (2 * one_units - half_units)"
  by code_simp

lemma f32_round_two: "f32_round (2 * one_units) = Val (2 * one_units)"
  by code_simp

lemma half_nonzero: "half_units \<noteq> 0"
  by (simp add: half_units_def)

theorem CalculateTotalAmount_exact_witness:
  "reachable demo_lib (heap3 (Val half_units)) demo_sent \<and>
   deltas ''A'' (chain_transactions (heap3 (Val half_units)) demo_sent)
     = [one_units, - half_units, one_units] \<and>
   finite_values ''A'' (chain_transactions (heap3 (Val half_units)) demo_sent) \<and>
   exact_run 0 (deltas ''A'' (chain_transactions (heap3 (Val half_units)) demo_sent)) \<and>
   CalculateTotalAmount (heap3 (Val half_units)) demo_sent ''A''
     = Val (received_units (heap3 (Val half_units)) demo_sent ''A''
            - sent_units (heap3 (Val half_units)) demo_sent ''A'') \<and>
   received_units (heap3 (Val half_units)) demo_sent ''A'' = 2 * one_units \<and>
   sent_units (heap3 (Val half_units)) demo_sent ''A'' = half_units \<and>
   half_units \<noteq> 0 \<and>
   finite_values ''B'' (chain_transactions (heap3 (Val half_units)) demo_sent) \<and>
   exact_run 0 (deltas ''B'' (chain_transactions (heap3 (Val half_units)) demo_sent)) \<and>
   CalculateTotalAmount (heap3 (Val half_units)) demo_sent ''B''
     = Val (received_units (heap3 (Val half_units)) demo_sent ''B''
            - sent_units (heap3 (Val half_units)) demo_sent ''B'') \<and>
   received_units (heap3 (Val half_units)) demo_sent ''B''
     - sent_units (heap3 (Val half_units)) demo_sent ''B'' = half_units \<and>
   reachable demo_lib (heap3 NZero) demo_sent \<and>
   finite_values ''A'' (chain_transactions (heap3 NZero) demo_sent) \<and>
   exact_run 0 (deltas ''A'' (chain_transactions (heap3 NZero) demo_sent)) \<and>
   CalculateTotalAmount (heap3 NZero) demo_sent ''A''
     = Val (received_units (heap3 NZero) demo_sent ''A''
            - sent_units (heap3 NZero) demo_sent ''A'') \<and>
   received_units (heap3 NZero) demo_sent ''A''
     - sent_units (heap3 NZero) demo_sent ''A'' = 2 * one_units"
proof -
  let ?h = "heap3 (Val half_units)"
  let ?z = "heap3 NZero"
  have ra: "reachable demo_lib ?h demo_sent"
    by (rule reachable_demo_sent)
  have da: "deltas ''A'' (chain_transactions ?h demo_sent) = [one_units, - half_units, one_units]"
    by (simp add: demo_sent_transactions deltas_def tx_deltas_def tx_def MiningSender_def)
  have fa: "finite_values ''A'' (chain_transactions ?h demo_sent)"
    by (simp add: demo_sent_transactions finite_values_def tx_def)
  have xa: "exact_run 0 (deltas ''A'' (chain_transactions ?h demo_sent))"
    by (simp add: da f32_round_one f32_round_one_minus_half f32_round_two_minus_half)
  have ca: "CalculateTotalAmount ?h demo_sent ''A''
              = Val (received_units ?h demo_sent ''A'' - sent_units ?h demo_sent ''A'')"
    using fa xa by (rule CalculateTotalAmount_exact)
  have rca: "received_units ?h demo_sent ''A'' = 2 * one_units"
    by (simp add: received_units_def demo_sent_transactions tx_def MiningSender_def)
  have sa: "sent_units ?h demo_sent ''A'' = half_units"
    by (simp add: sent_units_def demo_sent_transactions tx_def MiningSender_def)
  have fb: "finite_values ''B'' (chain_transactions ?h demo_sent)"
    by (simp add: demo_sent_transactions finite_values_def tx_def)
  have xb: "exact_run 0 (deltas ''B'' (chain_transactions ?h demo_sent))"
    by (simp add: demo_sent_transactions deltas_def tx_deltas_def tx_def MiningSender_def
          f32_round_half)
  have cb: "CalculateTotalAmount ?h demo_sent ''B''
              = Val (received_units ?h demo_sent ''B'' - sent_units ?h demo_sent ''B'')"
    using fb xb by (rule CalculateTotalAmount_exact)
  have eb: "received_units ?h demo_sent ''B'' - sent_units ?h demo_sent ''B'' = half_units"
    by (simp add: received_units_def sent_units_def demo_sent_transactions tx_def
          MiningSender_def)
  have rz: "reachable demo_lib ?z demo_sent"
    by (rule reachable_demo_sent)
  have fz: "finite_values ''A'' (chain_transactions ?z demo_sent)"
    by (simp add: demo_sent_transactions finite_values_def tx_def)
  have xz: "exact_run 0 (deltas ''A'' (chain_transactions ?z demo_sent))"
    by (simp add: demo_sent_transactions deltas_def tx_deltas_def tx_def MiningSender_def
          f32_round_one f32_round_two)
  have cz: "CalculateTotalAmount ?z demo_sent ''A''
              = Val (received_units ?z demo_sent ''A'' - sent_units ?z demo_sent ''A'')"
    using fz xz by (rule CalculateTotalAmount_exact)
  have ez: "received_units ?z demo_sent ''A'' - sent_units ?z demo_sent ''A'' = 2 * one_units"
    by (simp add: received_units_def sent_units_def demo_sent_transactions tx_def
          MiningSender_def)
  show ?thesis
    by (intro conjI ra da fa xa ca rca sa half_nonzero fb xb cb eb rz fz xz cz ez)
qed

text \<open>
  With \<open>v\<close> the \<open>float32\<close> nearest to \<open>0.4\<close>, the debit \<open>1.0 - v\<close> is rounded (it needs 25
  significant bits) and so is the second credit. \<^verbatim>\<open>CalculateTotalAmount\<close> returns the
  \<open>float32\<close> nearest to \<open>1.6\<close> for \<open>A\<close> and \<open>v\<close> for \<open>B\<close>; the exact difference of the
  stored values, \<open>2 - v\<close>, is another number.
\<close>

lemma f32_round_f04: "f32_round f04_units = Val f04_units"
  by code_simp

lemma f32_round_f16: "f32_round f16_units = Val f16_units"
  by code_simp

lemma f04_nonzero: "f04_units \<noteq> 0"
  by (simp add: f04_units_def)

lemma one_minus_f04_plus_one:
  "fadd (f32_round (one_units - f04_units)) (Val one_units) = Val f16_units"
  by code_simp

lemma one_minus_f04_rounded: "f32_round (one_units - f04_units) \<noteq> Val (one_units - f04_units)"
  by code_simp

lemma f16_not_exact: "2 * one_units - f04_units \<noteq> f16_units"
  by code_simp

lemma CalculateTotalAmount_documented_example:
  "reachable demo_lib (heap3 (Val f04_units)) demo_sent \<and>
   f32_valid (Val f04_units) \<and> f32_valid (Val f16_units) \<and>
   CalculateTotalAmount (heap3 (Val f04_units)) demo_sent ''A'' = Val f16_units \<and>
   CalculateTotalAmount (heap3 (Val f04_units)) demo_sent ''B'' = Val f04_units \<and>
   received_units (heap3 (Val f04_units)) demo_sent ''A''
     - sent_units (heap3 (Val f04_units)) demo_sent ''A'' = 2 * one_units - f04_units \<and>
   2 * one_units - f04_units \<noteq> f16_units \<and>
   \<not> exact_run 0 (deltas ''A'' (chain_transactions (heap3 (Val f04_units)) demo_sent))"
proof -
  let ?h = "heap3 (Val f04_units)"
  have r: "reachable demo_lib ?h demo_sent"
    by (rule reachable_demo_sent)
  have v: "f32_valid (Val f04_units)" "f32_valid (Val f16_units)"
    by (simp_all add: f32_valid_def f32_round_f04 f32_round_f16)
  have a: "CalculateTotalAmount ?h demo_sent ''A'' = Val f16_units"
    by (simp add: CalculateTotalAmount_scan demo_sent_transactions total_step_def tx_def
          Let_def fsub_def MiningSender_def f32_round_one f04_nonzero one_minus_f04_plus_one)
  have b: "CalculateTotalAmount ?h demo_sent ''B'' = Val f04_units"
    by (simp add: CalculateTotalAmount_scan demo_sent_transactions total_step_def tx_def
          Let_def fsub_def MiningSender_def f32_round_f04)
  have e: "received_units ?h demo_sent ''A'' - sent_units ?h demo_sent ''A''
             = 2 * one_units - f04_units"
    by (simp add: received_units_def sent_units_def demo_sent_transactions tx_def
          MiningSender_def)
  have x: "\<not> exact_run 0 (deltas ''A'' (chain_transactions ?h demo_sent))"
    by (simp add: demo_sent_transactions deltas_def tx_deltas_def tx_def MiningSender_def
          f32_round_one one_minus_f04_rounded)
  show ?thesis
    by (intro conjI r v a b e f16_not_exact x)
qed

end
